theory Spec2Isabelle
  imports Main
begin

section \<open>The training orchestrator of \<^verbatim>\<open>src/learning/learning_controller.py\<close>\<close>

text \<open>
  The module defines one procedure, \<^verbatim>\<open>train_model(data)\<close>. Everything it calls belongs
  to collaborators whose code is elsewhere: pandas (\<^verbatim>\<open>DataFrame.drop\<close>), the trading
  environment, the DQN agent and the clock. The procedure is embedded as a function over
  an explicit world, parameterised by the collaborators, in a monad of state and
  exceptions. Each call the procedure makes to a collaborator is appended to a log, which
  is what the theorems about order and number of calls speak about. Console output
  (\<^verbatim>\<open>print\<close>) is not part of the model.
\<close>

subsection \<open>Data frames and the object store\<close>

text \<open>
  A data frame is its list of columns, each a label with its cells. Frames are objects:
  the caller passes a reference, and \<^verbatim>\<open>drop\<close> allocates a new object. The store is the
  list of allocated frames, an address is an index into it.
\<close>

type_synonym 'v dataframe = "(string \<times> 'v list) list"

type_synonym addr = nat

record ('v, 'w) world =
  frames :: "'v dataframe list"
  ext :: 'w

definition lookup :: "('v, 'w) world \<Rightarrow> addr \<Rightarrow> 'v dataframe option" where
  "lookup w a = (if a < length (frames w) then Some (frames w ! a) else None)"

definition columns :: "'v dataframe \<Rightarrow> string list" where
  "columns df = map fst df"

text \<open>
  Exceptions: \<open>KeyError\<close> is what \<^verbatim>\<open>DataFrame.drop\<close> raises for labels that are not
  columns, \<open>AttributeError\<close> stands for an argument that is no data frame at all, and
  \<open>Raised x\<close> is the exception \<open>x\<close> of a collaborator, carried as it was raised.
\<close>

datatype 'x exn = KeyError "string list" | AttributeError | Raised 'x

text \<open>
  \<^verbatim>\<open>data.drop(columns=labels)\<close> with the defaults \<^verbatim>\<open>inplace=False, errors='raise'\<close>: a new
  frame without the columns carrying one of the labels; the frame it is called on is left
  as it is.
\<close>

definition DataFrame_drop ::
  "string list \<Rightarrow> addr \<Rightarrow> ('v, 'w) world \<Rightarrow> ('x exn + addr) \<times> ('v, 'w) world" where
  "DataFrame_drop labels a w =
     (case lookup w a of
        None \<Rightarrow> (Inl AttributeError, w)
      | Some df \<Rightarrow>
          (let missing = filter (\<lambda>l. l \<notin> set (columns df)) labels in
           if missing \<noteq> [] then (Inl (KeyError missing), w)
           else (Inr (length (frames w)),
                 w\<lparr>frames := frames w @ [filter (\<lambda>col. fst col \<notin> set labels) df]\<rparr>)))"

subsection \<open>The clock and \<^verbatim>\<open>strftime\<close>\<close>

record datetime =
  year :: nat
  month :: nat
  day :: nat
  hour :: nat
  minute :: nat
  second :: nat

definition digit :: "nat \<Rightarrow> char" where
  "digit n = ''0123456789'' ! (n mod 10)"

fun str :: "nat \<Rightarrow> string" where
  "str n = (if n < 10 then [digit n] else str (n div 10) @ [digit n])"

definition zfill :: "nat \<Rightarrow> string \<Rightarrow> string" where
  "zfill k s = replicate (k - length s) (CHR ''0'') @ s"

text \<open>
  \<^verbatim>\<open>now.strftime("%Y-%m-%d_%H-%M-%S")\<close>: \<^verbatim>\<open>%Y\<close> is the year as a decimal number, printed
  without padding as CPython on Linux does (so with four digits from the year 1000 on);
  the other directives are zero-padded to two digits.
\<close>

definition strftime :: "datetime \<Rightarrow> string" where
  "strftime dt =
     str (year dt) @ ''-'' @ zfill 2 (str (month dt)) @ ''-'' @ zfill 2 (str (day dt))
     @ ''_'' @ zfill 2 (str (hour dt)) @ ''-'' @ zfill 2 (str (minute dt)) @ ''-''
     @ zfill 2 (str (second dt))"

subsection \<open>Collaborators\<close>

text \<open>
  An operation of a collaborator takes the world and returns the world it leaves, with
  either its result or the exception it raised. The environment and the agent are the
  single instances the procedure constructs; their state lives in \<open>ext\<close>.
\<close>

type_synonym ('v, 'w, 'x, 'b) operation =
  "('v, 'w) world \<Rightarrow> ('x + 'b) \<times> ('v, 'w) world"

record ('v, 'w, 'x, 's, 'a, 'r) collab =
  TradingEnvironment :: "addr \<Rightarrow> ('v, 'w, 'x, unit) operation"
  get_state :: "('v, 'w, 'x, 's list) operation"
  DQN :: "nat \<Rightarrow> nat \<Rightarrow> ('v, 'w, 'x, unit) operation"
  reset :: "('v, 'w, 'x, 's list) operation"
  act :: "'s list \<Rightarrow> ('v, 'w, 'x, 'a) operation"
  step :: "'a \<Rightarrow> ('v, 'w, 'x, 's list \<times> 'r \<times> bool) operation"
  remember :: "'s list \<Rightarrow> 'a \<Rightarrow> 'r \<Rightarrow> 's list \<Rightarrow> bool \<Rightarrow> ('v, 'w, 'x, unit) operation"
  memory_len :: "('v, 'w) world \<Rightarrow> nat"
  replay :: "nat \<Rightarrow> ('v, 'w, 'x, unit) operation"
  now :: "('v, 'w) world \<Rightarrow> datetime"
  save_model :: "string \<Rightarrow> ('v, 'w, 'x, unit) operation"

subsection \<open>The log of calls\<close>

text \<open>
  One event per call, in the order the calls are made. \<open>EnvInit\<close> records the reference
  passed to the environment's constructor and the frame it designates at that moment;
  \<open>MemoryLen\<close> and \<open>Now\<close> record the value read. An entry pairs the event with the exception
  the call raised, if any.
\<close>

datatype ('v, 's, 'a, 'r) event =
    EnvInit addr "'v dataframe"
  | GetState
  | AgentInit nat nat
  | Reset
  | Act "'s list"
  | Step 'a
  | Remember "'s list" 'a 'r "'s list" bool
  | MemoryLen nat
  | Replay nat
  | Now datetime
  | SaveModel string

type_synonym ('v, 'x, 's, 'a, 'r) entry = "('v, 's, 'a, 'r) event \<times> 'x option"

type_synonym ('v, 'w, 'x, 's, 'a, 'r) run =
  "('v, 'w) world \<times> ('v, 'x, 's, 'a, 'r) entry list"

type_synonym ('v, 'w, 'x, 's, 'a, 'r, 'b) action =
  "('v, 'w, 'x, 's, 'a, 'r) run \<Rightarrow> ('x exn + 'b) \<times> ('v, 'w, 'x, 's, 'a, 'r) run"

definition ret :: "'b \<Rightarrow> ('v, 'w, 'x, 's, 'a, 'r, 'b) action" where
  "ret y s = (Inr y, s)"

text \<open>Sequencing: an exception of the first part ends the whole, unchanged.\<close>

definition then_do ::
  "('v, 'w, 'x, 's, 'a, 'r, 'b) action \<Rightarrow> ('b \<Rightarrow> ('v, 'w, 'x, 's, 'a, 'r, 'c) action)
   \<Rightarrow> ('v, 'w, 'x, 's, 'a, 'r, 'c) action" where
  "then_do m k s = (case m s of (Inl e, s') \<Rightarrow> (Inl e, s') | (Inr y, s') \<Rightarrow> k y s')"

definition invoke ::
  "('v, 's, 'a, 'r) event \<Rightarrow> ('v, 'w, 'x, 'b) operation \<Rightarrow> ('v, 'w, 'x, 's, 'a, 'r, 'b) action" where
  "invoke ev f s =
     (case f (fst s) of
        (Inl x, w') \<Rightarrow> (Inl (Raised x), (w', snd s @ [(ev, Some x)]))
      | (Inr y, w') \<Rightarrow> (Inr y, (w', snd s @ [(ev, None)])))"

definition observe ::
  "('b \<Rightarrow> ('v, 's, 'a, 'r) event) \<Rightarrow> (('v, 'w) world \<Rightarrow> 'b) \<Rightarrow> ('v, 'w, 'x, 's, 'a, 'r, 'b) action" where
  "observe ev f s = (Inr (f (fst s)), (fst s, snd s @ [(ev (f (fst s)), None)]))"

definition pandas ::
  "(('v, 'w) world \<Rightarrow> ('x exn + 'b) \<times> ('v, 'w) world) \<Rightarrow> ('v, 'w, 'x, 's, 'a, 'r, 'b) action" where
  "pandas f s = (case f (fst s) of (res, w') \<Rightarrow> (res, (w', snd s)))"

subsection \<open>\<^verbatim>\<open>train_model\<close>\<close>

definition NUM_EPISODES :: nat where
  "NUM_EPISODES = 10"

definition MAX_STEPS :: nat where
  "MAX_STEPS = 10"

definition BATCH_SIZE :: nat where
  "BATCH_SIZE = 64"

text \<open>
  The body of the inner loop (lines 70 to 80 of the source), up to the assignment
  \<^verbatim>\<open>state = next_state\<close>; it returns the new current state and the termination flag.
\<close>

definition loop_body ::
  "('v, 'w, 'x, 's, 'a, 'r) collab \<Rightarrow> nat \<Rightarrow> 's list
   \<Rightarrow> ('v, 'w, 'x, 's, 'a, 'r, 's list \<times> bool) action" where
  "loop_body c batch_size state =
     then_do (invoke (Act state) (act c state)) (\<lambda>action.
     then_do (invoke (Step action) (step c action)) (\<lambda>(next_state, reward, done).
     then_do (invoke (Remember state action reward next_state done)
                (remember c state action reward next_state done)) (\<lambda>_.
     then_do (observe MemoryLen (memory_len c)) (\<lambda>n.
     then_do (if n > batch_size then invoke (Replay batch_size) (replay c batch_size)
              else ret ()) (\<lambda>_.
     ret (next_state, done))))))"

text \<open>
  \<^verbatim>\<open>for step in range(MAX_STEPS)\<close> with its \<^verbatim>\<open>break\<close>: the numeric argument is the number of
  iterations left. The result is the value of \<^verbatim>\<open>state\<close> when the loop is left.
\<close>

primrec step_loop ::
  "('v, 'w, 'x, 's, 'a, 'r) collab \<Rightarrow> nat \<Rightarrow> nat \<Rightarrow> 's list
   \<Rightarrow> ('v, 'w, 'x, 's, 'a, 'r, 's list) action" where
  "step_loop c batch_size 0 state = ret state"
| "step_loop c batch_size (Suc n) state =
     then_do (loop_body c batch_size state) (\<lambda>(next_state, done).
       if done then ret next_state else step_loop c batch_size n next_state)"

text \<open>\<^verbatim>\<open>for episode in range(NUM_EPISODES)\<close>.\<close>

primrec episode_loop ::
  "('v, 'w, 'x, 's, 'a, 'r) collab \<Rightarrow> nat \<Rightarrow> nat \<Rightarrow> nat
   \<Rightarrow> ('v, 'w, 'x, 's, 'a, 'r, unit) action" where
  "episode_loop c batch_size max_steps 0 = ret ()"
| "episode_loop c batch_size max_steps (Suc k) =
     then_do (invoke Reset (reset c)) (\<lambda>state.
     then_do (step_loop c batch_size max_steps state) (\<lambda>_.
     episode_loop c batch_size max_steps k))"

text \<open>
  The procedure, with the three module constants as parameters. \<open>data\<close> is the reference
  the caller passes; the local name \<^verbatim>\<open>data\<close> is rebound to the reference \<^verbatim>\<open>drop\<close> returns.
\<close>

definition train_model_with ::
  "nat \<Rightarrow> nat \<Rightarrow> nat \<Rightarrow> ('v, 'w, 'x, 's, 'a, 'r) collab \<Rightarrow> addr
   \<Rightarrow> ('v, 'w, 'x, 's, 'a, 'r, string) action" where
  "train_model_with num_episodes max_steps batch_size c data =
     then_do (pandas (DataFrame_drop [''target''] data)) (\<lambda>data.
     then_do (\<lambda>s. invoke (EnvInit data (frames (fst s) ! data)) (TradingEnvironment c data) s) (\<lambda>_.
     then_do (invoke GetState (get_state c)) (\<lambda>sample.
     let state_size = length sample; action_size = 3 in
     then_do (invoke (AgentInit state_size action_size) (DQN c state_size action_size)) (\<lambda>_.
     then_do (episode_loop c batch_size max_steps num_episodes) (\<lambda>_.
     then_do (observe Now (now c)) (\<lambda>now.
     let timestamp = strftime now;
         path = ''src/learning/trained_models/dqn_model_'' @ timestamp @ ''.h5'' in
     then_do (invoke (SaveModel path) (save_model c path)) (\<lambda>_.
     ret path)))))))"

definition train_model ::
  "('v, 'w, 'x, 's, 'a, 'r) collab \<Rightarrow> addr \<Rightarrow> ('v, 'w, 'x, 's, 'a, 'r, string) action" where
  "train_model = train_model_with NUM_EPISODES MAX_STEPS BATCH_SIZE"

subsection \<open>\<^verbatim>\<open>load_existing_model\<close>\<close>

datatype load_error = FileNotFound | DeserializationError

text \<open>
  Modelled from the spec: \<^verbatim>\<open>load_existing_model(model_path)\<close> is announced by the module's
  docstring and its \<^verbatim>\<open>load_model\<close> import, but its body is not part of the source file.
  Following the specification's contract \<^verbatim>\<open>load(path) -> model\<close>: the artifact stored at
  the path is read and deserialized; a path with no file fails with a file-not-found
  error, an artifact that does not deserialize fails with a deserialization error. The
  file system is a map from paths to stored artifacts, the deserializer a parameter.
\<close>

definition load_existing_model ::
  "('b \<Rightarrow> 'm option) \<Rightarrow> (string \<rightharpoonup> 'b) \<Rightarrow> string \<Rightarrow> load_error + 'm" where
  "load_existing_model deserialize files path =
     (case files path of
        None \<Rightarrow> Inl FileNotFound
      | Some stored \<Rightarrow>
          (case deserialize stored of
             None \<Rightarrow> Inl DeserializationError
           | Some model \<Rightarrow> Inr model))"

section \<open>Vocabulary of the properties\<close>

subsection \<open>Iterations and episodes, as they appear in the log\<close>

text \<open>
  One iteration of the inner loop: the state it started from, the action chosen, the
  reward, the next state, the termination flag, and the memory length read after
  \<^verbatim>\<open>remember\<close>. \<open>iter_events\<close> is the sequence of calls of an iteration that ran to its
  end, \<open>episode_events\<close> that of an episode.
\<close>

record ('s, 'a, 'r) iteration =
  before :: "'s list"
  chosen :: 'a
  gain :: 'r
  after :: "'s list"
  final :: bool
  memory_seen :: nat

definition iter_events :: "nat \<Rightarrow> ('s, 'a, 'r) iteration \<Rightarrow> ('v, 's, 'a, 'r) event list" where
  "iter_events batch_size it =
     [Act (before it), Step (chosen it),
      Remember (before it) (chosen it) (gain it) (after it) (final it),
      MemoryLen (memory_seen it)]
     @ (if memory_seen it > batch_size then [Replay batch_size] else [])"

definition episode_events ::
  "nat \<Rightarrow> ('s, 'a, 'r) iteration list \<Rightarrow> ('v, 's, 'a, 'r) event list" where
  "episode_events batch_size its = Reset # concat (map (iter_events batch_size) its)"

text \<open>The action and the transition of an iteration are what the collaborators returned.\<close>

definition from_collab :: "('v, 'w, 'x, 's, 'a, 'r) collab \<Rightarrow> ('s, 'a, 'r) iteration \<Rightarrow> bool" where
  "from_collab c it \<longleftrightarrow>
     (\<exists>w w'. act c (before it) w = (Inr (chosen it), w')) \<and>
     (\<exists>w w'. step c (chosen it) w = (Inr (after it, gain it, final it), w'))"

text \<open>
  An episode as the specification describes it: at most \<open>max_steps\<close> iterations (at least
  one when \<open>max_steps\<close> is positive), no iteration but the last reports termination, each
  starts from the state the one before produced, the first from the state \<^verbatim>\<open>reset\<close>
  returned, and an episode that stops short of \<open>max_steps\<close> stopped on a termination flag.
\<close>

definition well_formed_episode ::
  "('v, 'w, 'x, 's, 'a, 'r) collab \<Rightarrow> nat \<Rightarrow> ('s, 'a, 'r) iteration list \<Rightarrow> bool" where
  "well_formed_episode c max_steps its \<longleftrightarrow>
     length its \<le> max_steps \<and> (0 < max_steps \<longrightarrow> its \<noteq> []) \<and>
     (\<forall>i. Suc i < length its \<longrightarrow> \<not> final (its ! i) \<and> before (its ! Suc i) = after (its ! i)) \<and>
     (length its < max_steps \<longrightarrow> final (last its)) \<and>
     (its \<noteq> [] \<longrightarrow> (\<exists>w w'. reset c w = (Inr (before (hd its)), w'))) \<and>
     (\<forall>it \<in> set its. from_collab c it)"


text \<open>The same shape, following the recursion of \<open>step_loop\<close>; used in the proofs only.\<close>

fun unrolled ::
  "('v, 'w, 'x, 's, 'a, 'r) collab \<Rightarrow> nat \<Rightarrow> 's list \<Rightarrow> ('s, 'a, 'r) iteration list \<Rightarrow> bool" where
  "unrolled c 0 s its = (its = [])"
| "unrolled c (Suc n) s [] = False"
| "unrolled c (Suc n) s (it # its) =
     (before it = s \<and> from_collab c it \<and> (if final it then its = [] else unrolled c n (after it) its))"

abbreviation ok :: "('v, 's, 'a, 'r) event \<Rightarrow> ('v, 'x, 's, 'a, 'r) entry" where
  "ok e \<equiv> (e, None)"

subsection \<open>The path, the timestamp and the cleaned frame\<close>

definition model_path :: "datetime \<Rightarrow> string" where
  "model_path dt = ''src/learning/trained_models/dqn_model_'' @ strftime dt @ ''.h5''"

text \<open>
  The format \<^verbatim>\<open>YYYY-MM-DD_HH-MM-SS\<close> read as a pattern: a letter of \<^verbatim>\<open>YMDHS\<close> stands for one
  decimal digit, any other character for itself. \<open>valid_datetime\<close> gives the ranges of the
  fields of a Python \<^verbatim>\<open>datetime\<close> whose year has four digits, as any value of the clock
  has.
\<close>

definition is_digit :: "char \<Rightarrow> bool" where
  "is_digit ch \<longleftrightarrow> ch \<in> set ''0123456789''"

fun matches_format :: "string \<Rightarrow> string \<Rightarrow> bool" where
  "matches_format [] [] = True"
| "matches_format (p # ps) (ch # cs) =
     ((if p \<in> set ''YMDHS'' then is_digit ch else ch = p) \<and> matches_format ps cs)"
| "matches_format _ _ = False"

definition is_timestamp :: "string \<Rightarrow> bool" where
  "is_timestamp s = matches_format ''YYYY-MM-DD_HH-MM-SS'' s"

definition valid_datetime :: "datetime \<Rightarrow> bool" where
  "valid_datetime dt \<longleftrightarrow>
     1000 \<le> year dt \<and> year dt \<le> 9999 \<and> 1 \<le> month dt \<and> month dt \<le> 12 \<and>
     1 \<le> day dt \<and> day dt \<le> 31 \<and> hour dt < 24 \<and> minute dt < 60 \<and> second dt < 60"

text \<open>
  Reading a timestamp back: the value of a decimal digit, the number a string of digits
  denotes, and the date and time a string of the shape \<^verbatim>\<open>YYYY-MM-DD_HH-MM-SS\<close> denotes.
\<close>

definition digit_value :: "char \<Rightarrow> nat option" where
  "digit_value ch = map_of (zip ''0123456789'' [0, 1, 2, 3, 4, 5, 6, 7, 8, 9]) ch"

definition number :: "string \<Rightarrow> nat option" where
  "number s =
     foldl (\<lambda>acc ch. case (acc, digit_value ch) of (Some a, Some d) \<Rightarrow> Some (10 * a + d) | _ \<Rightarrow> None)
       (Some 0) s"

definition strptime :: "string \<Rightarrow> datetime option" where
  "strptime s =
     (if length s = 19 \<and> s ! 4 = CHR ''-'' \<and> s ! 7 = CHR ''-'' \<and> s ! 10 = CHR ''_'' \<and>
         s ! 13 = CHR ''-'' \<and> s ! 16 = CHR ''-''
      then (case map number [take 4 s, take 2 (drop 5 s), take 2 (drop 8 s), take 2 (drop 11 s),
                             take 2 (drop 14 s), take 2 (drop 17 s)] of
              [Some y, Some mo, Some d, Some h, Some mi, Some se] \<Rightarrow>
                Some \<lparr>year = y, month = mo, day = d, hour = h, minute = mi, second = se\<rparr>
            | _ \<Rightarrow> None)
      else None)"

text \<open>
  The frame without its \<open>target\<close> columns, and a frame whose \<open>target\<close> cells are all
  replaced by one value.
\<close>

definition cleaned :: "'v dataframe \<Rightarrow> 'v dataframe" where
  "cleaned df = filter (\<lambda>col. fst col \<noteq> ''target'') df"

definition with_target :: "'v \<Rightarrow> 'v dataframe \<Rightarrow> 'v dataframe" where
  "with_target v df =
     map (\<lambda>col. if fst col = ''target'' then (fst col, map (\<lambda>_. v) (snd col)) else col) df"

subsection \<open>What an action appends to the log\<close>

definition failure :: "'e + 'b \<Rightarrow> 'e option" where
  "failure res = (case res of Inl e \<Rightarrow> Some e | Inr y \<Rightarrow> None)"

definition emits ::
  "('x exn option \<Rightarrow> ('v, 'x, 's, 'a, 'r) entry list \<Rightarrow> bool)
   \<Rightarrow> ('v, 'w, 'x, 's, 'a, 'r, 'b) action \<Rightarrow> bool" where
  "emits P m \<longleftrightarrow> (\<forall>s. \<exists>t. snd (snd (m s)) = snd s @ t \<and> P (failure (fst (m s))) t)"

definition sequential :: "('x exn option \<Rightarrow> ('v, 'x, 's, 'a, 'r) entry list \<Rightarrow> bool) \<Rightarrow> bool" where
  "sequential P \<longleftrightarrow> (\<forall>t1 t2 e. P None t1 \<longrightarrow> P e t2 \<longrightarrow> P e (t1 @ t2))"

definition only ::
  "(('v, 's, 'a, 'r) event \<Rightarrow> bool) \<Rightarrow> 'x exn option \<Rightarrow> ('v, 'x, 's, 'a, 'r) entry list \<Rightarrow> bool" where
  "only Q e t \<longleftrightarrow> (\<forall>en \<in> set t. Q (fst en))"

definition loop_event :: "('v, 's, 'a, 'r) event \<Rightarrow> bool" where
  "loop_event ev =
     (case ev of Act s \<Rightarrow> True | Step a \<Rightarrow> True | Remember s a r s' d \<Rightarrow> True
      | MemoryLen k \<Rightarrow> True | Replay b \<Rightarrow> True | _ \<Rightarrow> False)"

definition later_event :: "('v, 's, 'a, 'r) event \<Rightarrow> bool" where
  "later_event ev =
     (case ev of EnvInit r df \<Rightarrow> False | GetState \<Rightarrow> False | AgentInit n m \<Rightarrow> False | _ \<Rightarrow> True)"

definition resets :: "('v, 'x, 's, 'a, 'r) entry list \<Rightarrow> nat" where
  "resets t = length (filter (\<lambda>en. fst en = Reset) t)"

text \<open>The part of \<open>train_model\<close> that follows the construction of the agent.\<close>

definition after_setup ::
  "('v, 'w, 'x, 's, 'a, 'r) collab \<Rightarrow> nat \<Rightarrow> nat \<Rightarrow> nat \<Rightarrow> ('v, 'w, 'x, 's, 'a, 'r, string) action" where
  "after_setup c num_episodes max_steps batch_size =
     then_do (episode_loop c batch_size max_steps num_episodes) (\<lambda>_.
     then_do (observe Now (now c)) (\<lambda>dt.
     then_do (invoke (SaveModel (model_path dt)) (save_model c (model_path dt))) (\<lambda>_.
     ret (model_path dt))))"

text \<open>
  A log and the way the run ended agree: when the run ended with the exception \<open>x\<close> of a
  collaborator, the last call logged raised \<open>x\<close> and no call before it raised; otherwise
  no call raised.
\<close>

fun propagated :: "'x exn option \<Rightarrow> ('v, 'x, 's, 'a, 'r) entry list \<Rightarrow> bool" where
  "propagated (Some (Raised x)) t =
     (t \<noteq> [] \<and> snd (last t) = Some x \<and> (\<forall>en \<in> set (butlast t). snd en = None))"
| "propagated e t = (\<forall>en \<in> set t. snd en = None)"

subsection \<open>The replay rule as an automaton over the log\<close>

text \<open>
  What is due next: after a \<^verbatim>\<open>remember\<close> that returned, the read of the memory length;
  after a read above the batch size, \<^verbatim>\<open>replay\<close> with the batch size; otherwise anything but
  a read or a \<^verbatim>\<open>replay\<close>.
\<close>

datatype pending = Neutral | LengthDue | ReplayDue

definition advance :: "nat \<Rightarrow> pending \<Rightarrow> ('v, 'x, 's, 'a, 'r) entry \<Rightarrow> pending option" where
  "advance b p en =
     (case fst en of
        MemoryLen k \<Rightarrow>
          (if p = LengthDue \<and> snd en = None then Some (if b < k then ReplayDue else Neutral)
           else None)
      | Replay n \<Rightarrow> (if p = ReplayDue \<and> n = b then Some Neutral else None)
      | Remember s a r s' d \<Rightarrow>
          (if p = Neutral then Some (if snd en = None then LengthDue else Neutral) else None)
      | _ \<Rightarrow> (if p = Neutral then Some Neutral else None))"

fun run_rule :: "nat \<Rightarrow> pending \<Rightarrow> ('v, 'x, 's, 'a, 'r) entry list \<Rightarrow> pending option" where
  "run_rule b p [] = Some p"
| "run_rule b p (en # t) = (case advance b p en of None \<Rightarrow> None | Some p' \<Rightarrow> run_rule b p' t)"

definition accepted :: "nat \<Rightarrow> 'x exn option \<Rightarrow> ('v, 'x, 's, 'a, 'r) entry list \<Rightarrow> bool" where
  "accepted b e t \<longleftrightarrow> run_rule b Neutral t = Some Neutral"

definition measured ::
  "('v, 'w, 'x, 's, 'a, 'r) collab \<Rightarrow> ('v, 's, 'a, 'r) event \<Rightarrow> bool" where
  "measured c ev \<longleftrightarrow> (\<forall>k. ev = MemoryLen k \<longrightarrow> (\<exists>w. k = memory_len c w))"

subsection \<open>Frames a collaborator was never given\<close>

definition keeps ::
  "(('v, 'w) world \<Rightarrow> bool) \<Rightarrow> ('v, 'w, 'x, 's, 'a, 'r, 'b) action \<Rightarrow> bool" where
  "keeps I m \<longleftrightarrow> (\<forall>s. I (fst s) \<longrightarrow> I (fst (snd (m s))))"

text \<open>
  No operation of the collaborators changes the object at address \<open>a\<close>, except possibly
  the environment's constructor when it is handed \<open>a\<close> itself.
\<close>

definition leaves_alone :: "('v, 'w, 'x, 's, 'a, 'r) collab \<Rightarrow> addr \<Rightarrow> bool" where
  "leaves_alone c a \<longleftrightarrow>
     (\<forall>w. (\<forall>r. r \<noteq> a \<longrightarrow> lookup (snd (TradingEnvironment c r w)) a = lookup w a) \<and>
          lookup (snd (get_state c w)) a = lookup w a \<and>
          (\<forall>n m. lookup (snd (DQN c n m w)) a = lookup w a) \<and>
          lookup (snd (reset c w)) a = lookup w a \<and>
          (\<forall>s. lookup (snd (act c s w)) a = lookup w a) \<and>
          (\<forall>x. lookup (snd (step c x w)) a = lookup w a) \<and>
          (\<forall>s x r s' d. lookup (snd (remember c s x r s' d w)) a = lookup w a) \<and>
          (\<forall>b. lookup (snd (replay c b w)) a = lookup w a) \<and>
          (\<forall>p. lookup (snd (save_model c p w)) a = lookup w a))"

subsection \<open>Stub collaborators\<close>

text \<open>
  Test doubles in the style of the specification's testable properties: an environment
  whose \<^verbatim>\<open>step\<close> reports the given termination flag on every call, and an agent whose
  memory is a counter of the transitions it was given; none of their operations raises.
  \<open>broken_env\<close> is the same with a \<^verbatim>\<open>step\<close> that raises.
\<close>

datatype cell = Num int | NaN

definition stub_collab :: "bool \<Rightarrow> (cell, nat, string, int, nat, int) collab" where
  "stub_collab d =
     \<lparr> TradingEnvironment = (\<lambda>r w. (Inr (), w)),
       get_state = (\<lambda>w. (Inr [0, 0], w)),
       DQN = (\<lambda>n m w. (Inr (), w)),
       reset = (\<lambda>w. (Inr [0, 0], w)),
       act = (\<lambda>s w. (Inr 2, w)),
       step = (\<lambda>a w. (Inr ([1, 1], 5, d), w)),
       remember = (\<lambda>s a r s' d w. (Inr (), w\<lparr>ext := Suc (ext w)\<rparr>)),
       memory_len = ext,
       replay = (\<lambda>b w. (Inr (), w)),
       now = (\<lambda>w. \<lparr>year = 2023, month = 7, day = 4, hour = 9, minute = 30, second = 5\<rparr>),
       save_model = (\<lambda>p w. (Inr (), w)) \<rparr>"

definition broken_env :: "(cell, nat, string, int, nat, int) collab" where
  "broken_env = (stub_collab True)\<lparr>step := (\<lambda>a w. (Inl ''market closed'', w))\<rparr>"

definition market :: "cell dataframe" where
  "market = [(''close'', [Num 100, Num 101]), (''target'', [NaN, NaN])]"

definition prices_only :: "cell dataframe" where
  "prices_only = [(''close'', [Num 100, Num 101])]"

definition stub_world :: "cell dataframe \<Rightarrow> nat \<Rightarrow> (cell, nat) world" where
  "stub_world df k = \<lparr>frames = [df], ext = k\<rparr>"

text \<open>A file system with one well-formed and one corrupt artifact.\<close>

definition stub_deserialize :: "nat list \<Rightarrow> nat list option" where
  "stub_deserialize stored = (if take 2 stored = [137, 72] then Some (drop 2 stored) else None)"

definition stub_files :: "string \<rightharpoonup> nat list" where
  "stub_files = [''saved.h5'' \<mapsto> [137, 72, 1, 2], ''corrupt.h5'' \<mapsto> [0, 0]]"

section \<open>Facts about runs\<close>

subsection \<open>Sequencing\<close>

lemma then_do_ok: "m s = (Inr x, s1) \<Longrightarrow> then_do m k s = k x s1"
  by (simp add: then_do_def)

lemma then_do_err: "m s = (Inl e, s1) \<Longrightarrow> then_do m k s = (Inl e, s1)"
  by (simp add: then_do_def)

lemma drop_missing:
  assumes "lookup w data = Some df" and "''target'' \<notin> set (columns df)"
  shows "DataFrame_drop [''target''] data w = (Inl (KeyError [''target'']), w)"
  using assms by (simp add: DataFrame_drop_def)

subsection \<open>Runs that return\<close>

text \<open>
  When an action returns, every part of it returned: the log it leaves is the log of its
  parts, one after the other.
\<close>

lemma then_do_Inr:
  "then_do m k s = (Inr y, s') \<longleftrightarrow> (\<exists>x s1. m s = (Inr x, s1) \<and> k x s1 = (Inr y, s'))"
  by (auto simp: then_do_def split: prod.splits sum.splits)

lemma invoke_Inr:
  "invoke ev f (w, tr) = (Inr y, s') \<longleftrightarrow> (\<exists>w'. f w = (Inr y, w') \<and> s' = (w', tr @ [(ev, None)]))"
  by (auto simp: invoke_def split: prod.splits sum.splits)

lemma observe_Inr:
  "observe ev f (w, tr) = (Inr y, s') \<longleftrightarrow> y = f w \<and> s' = (w, tr @ [(ev (f w), None)])"
  by (auto simp: observe_def)

lemma ret_Inr: "ret x s = (Inr y, s') \<longleftrightarrow> y = x \<and> s' = s"
  by (auto simp: ret_def)

lemma loop_body_success:
  assumes "loop_body c b state (w, tr) = (Inr (ns, d), (w', tr'))"
  shows "\<exists>it. before it = state \<and> after it = ns \<and> final it = d \<and> from_collab c it \<and>
           tr' = tr @ map ok (iter_events b it)"
proof -
  from assms obtain a w1 r w2 w3 w4 where
    a: "act c state w = (Inr a, w1)" and
    s: "step c a w1 = (Inr (ns, r, d), w2)" and
    m: "remember c state a r ns d w2 = (Inr (), w3)" and
    p: "(if memory_len c w3 > b then invoke (Replay b) (replay c b) else ret ())
          (w3, tr @ [ok (Act state), ok (Step a), ok (Remember state a r ns d),
                     ok (MemoryLen (memory_len c w3))]) = (Inr (), (w', tr'))"
    unfolding loop_body_def
    by (auto simp: then_do_Inr invoke_Inr observe_Inr ret_Inr split: prod.splits)
  let ?it = "\<lparr>before = state, chosen = a, gain = r, after = ns, final = d,
              memory_seen = memory_len c w3\<rparr>"
  have "from_collab c ?it"
    using a s by (auto simp: from_collab_def)
  moreover have "tr' = tr @ map ok (iter_events b ?it)"
    using p by (auto simp: iter_events_def invoke_Inr ret_Inr split: if_splits)
  ultimately show ?thesis
    by (intro exI [of _ ?it]) simp
qed

lemma step_loop_success:
  "step_loop c b n state (w, tr) = (Inr st, (w', tr')) \<Longrightarrow>
   \<exists>its. unrolled c n state its \<and> tr' = tr @ map ok (concat (map (iter_events b) its))"
proof (induction n arbitrary: state w tr)
  case 0
  then show ?case by (simp add: ret_Inr)
next
  case (Suc n)
  from Suc.prems obtain ns d w1 tr1 where
    body: "loop_body c b state (w, tr) = (Inr (ns, d), (w1, tr1))" and
    rest: "(if d then ret ns else step_loop c b n ns) (w1, tr1) = (Inr st, (w', tr'))"
    by (auto simp: then_do_Inr split: prod.splits)
  from loop_body_success [OF body] obtain it where
    it: "before it = state" "after it = ns" "final it = d" "from_collab c it"
        "tr1 = tr @ map ok (iter_events b it)"
    by blast
  show ?case
  proof (cases d)
    case True
    with rest have "tr' = tr1" by (simp add: ret_Inr)
    with it True have "unrolled c (Suc n) state [it] \<and>
        tr' = tr @ map ok (concat (map (iter_events b) [it]))"
      by simp
    then show ?thesis by blast
  next
    case False
    with rest have "step_loop c b n ns (w1, tr1) = (Inr st, (w', tr'))" by simp
    from Suc.IH [OF this] obtain its where
      its: "unrolled c n ns its" "tr' = tr1 @ map ok (concat (map (iter_events b) its))"
      by blast
    with it False have "unrolled c (Suc n) state (it # its) \<and>
        tr' = tr @ map ok (concat (map (iter_events b) (it # its)))"
      by simp
    then show ?thesis by blast
  qed
qed

lemma unrolled_well_formed:
  "unrolled c n s its \<Longrightarrow>
     length its \<le> n \<and> (0 < n \<longrightarrow> its \<noteq> []) \<and>
     (\<forall>i. Suc i < length its \<longrightarrow> \<not> final (its ! i) \<and> before (its ! Suc i) = after (its ! i)) \<and>
     (length its < n \<longrightarrow> final (last its)) \<and>
     (its \<noteq> [] \<longrightarrow> before (hd its) = s) \<and>
     (\<forall>it \<in> set its. from_collab c it)"
proof (induction c n s its rule: unrolled.induct)
  case (1 c s its)
  then show ?case by simp
next
  case (2 c n s)
  then show ?case by simp
next
  case (3 c n s it its)
  show ?case
  proof (cases "final it")
    case True
    with "3.prems" show ?thesis by simp
  next
    case False
    with "3.prems" have u: "unrolled c n (after it) its" and b: "before it = s" and f: "from_collab c it"
      by simp_all
    note ih = "3.IH" [OF False u]
    have nth: "\<forall>i. Suc i < length (it # its) \<longrightarrow>
        \<not> final ((it # its) ! i) \<and> before ((it # its) ! Suc i) = after ((it # its) ! i)"
    proof (intro allI impI)
      fix i assume i: "Suc i < length (it # its)"
      show "\<not> final ((it # its) ! i) \<and> before ((it # its) ! Suc i) = after ((it # its) ! i)"
      proof (cases i)
        case 0
        with i have "its \<noteq> []" by auto
        with ih have "before (hd its) = after it" by simp
        with 0 False \<open>its \<noteq> []\<close> show ?thesis by (simp add: hd_conv_nth)
      next
        case (Suc j)
        with i ih show ?thesis by simp
      qed
    qed
    have lst: "length (it # its) < Suc n \<longrightarrow> final (last (it # its))"
      using ih by (cases n) auto
    from ih b f nth lst show ?thesis by simp
  qed
qed

lemma episode_loop_success:
  "episode_loop c b ms k (w, tr) = (Inr u, (w', tr')) \<Longrightarrow>
   \<exists>eps. length eps = k \<and> (\<forall>ep \<in> set eps. well_formed_episode c ms ep) \<and>
         tr' = tr @ map ok (concat (map (episode_events b) eps))"
proof (induction k arbitrary: w tr)
  case 0
  then show ?case by (simp add: ret_Inr)
next
  case (Suc k)
  from Suc.prems obtain s0 w1 st w2 tr2 where
    r: "reset c w = (Inr s0, w1)" and
    l: "step_loop c b ms s0 (w1, tr @ [ok Reset]) = (Inr st, (w2, tr2))" and
    e: "episode_loop c b ms k (w2, tr2) = (Inr u, (w', tr'))"
    by (auto simp: then_do_Inr invoke_Inr)
  from step_loop_success [OF l] obtain its where
    its: "unrolled c ms s0 its" "tr2 = (tr @ [ok Reset]) @ map ok (concat (map (iter_events b) its))"
    by blast
  from unrolled_well_formed [OF its(1)] r have wf: "well_formed_episode c ms its"
    unfolding well_formed_episode_def by blast
  from Suc.IH [OF e] obtain eps where
    eps: "length eps = k" "\<forall>ep \<in> set eps. well_formed_episode c ms ep"
         "tr' = tr2 @ map ok (concat (map (episode_events b) eps))"
    by blast
  have "length (its # eps) = Suc k \<and> (\<forall>ep \<in> set (its # eps). well_formed_episode c ms ep) \<and>
        tr' = tr @ map ok (concat (map (episode_events b) (its # eps)))"
    using eps its(2) wf by (simp add: episode_events_def)
  then show ?case by blast
qed

lemma drop_Inr:
  "pandas (DataFrame_drop [''target''] data) (w, tr) = (Inr r, (w1, tr1)) \<longleftrightarrow>
     (\<exists>df. lookup w data = Some df \<and> ''target'' \<in> set (columns df) \<and> r = length (frames w) \<and>
           w1 = w\<lparr>frames := frames w @ [cleaned df]\<rparr> \<and> tr1 = tr)"
  by (auto simp: pandas_def DataFrame_drop_def cleaned_def split: option.splits)

lemma train_model_with_unfold:
  "train_model_with ne ms b c data =
     then_do (pandas (DataFrame_drop [''target''] data)) (\<lambda>r.
     then_do (\<lambda>s. invoke (EnvInit r (frames (fst s) ! r)) (TradingEnvironment c r) s) (\<lambda>_.
     then_do (invoke GetState (get_state c)) (\<lambda>sample.
     then_do (invoke (AgentInit (length sample) 3) (DQN c (length sample) 3)) (\<lambda>_.
     then_do (episode_loop c b ms ne) (\<lambda>_.
     then_do (observe Now (now c)) (\<lambda>dt.
     then_do (invoke (SaveModel (model_path dt)) (save_model c (model_path dt))) (\<lambda>_.
     ret (model_path dt))))))))"
  by (simp add: train_model_with_def model_path_def Let_def)

lemma train_model_with_success:
  assumes "train_model_with ne ms b c data (w, tr0) = (Inr path, (w', tr))"
  shows "\<exists>df sample eps w2 w3 w4 w5.
      lookup w data = Some df \<and> ''target'' \<in> set (columns df) \<and>
      TradingEnvironment c (length (frames w)) (w\<lparr>frames := frames w @ [cleaned df]\<rparr>) = (Inr (), w2) \<and>
      get_state c w2 = (Inr sample, w3) \<and>
      DQN c (length sample) 3 w3 = (Inr (), w4) \<and>
      save_model c path w5 = (Inr (), w') \<and>
      path = model_path (now c w5) \<and>
      length eps = ne \<and> (\<forall>ep \<in> set eps. well_formed_episode c ms ep) \<and>
      tr = tr0 @ map ok ([EnvInit (length (frames w)) (cleaned df), GetState, AgentInit (length sample) 3]
                    @ concat (map (episode_events b) eps)
                    @ [Now (now c w5), SaveModel path])"
proof -
  have "\<exists>r w1 w2 sample w3 w4 u w5 tr5.
    pandas (DataFrame_drop [''target''] data) (w, tr0) = (Inr r, (w1, tr0)) \<and>
    TradingEnvironment c r w1 = (Inr (), w2) \<and>
    get_state c w2 = (Inr sample, w3) \<and>
    DQN c (length sample) 3 w3 = (Inr (), w4) \<and>
    episode_loop c b ms ne (w4, tr0 @ [ok (EnvInit r (frames w1 ! r)), ok GetState,
           ok (AgentInit (length sample) 3)]) = (Inr u, (w5, tr5)) \<and>
    save_model c (model_path (now c w5)) w5 = (Inr (), w') \<and>
    path = model_path (now c w5) \<and>
    tr = tr5 @ [ok (Now (now c w5)), ok (SaveModel (model_path (now c w5)))]"
    using assms unfolding train_model_with_unfold
    by (auto simp: then_do_Inr invoke_Inr observe_Inr ret_Inr pandas_def split: prod.splits)
  then obtain r w1 w2 sample w3 w4 u w5 tr5 where
    d: "pandas (DataFrame_drop [''target''] data) (w, tr0) = (Inr r, (w1, tr0))" and
    e: "TradingEnvironment c r w1 = (Inr (), w2)" and
    g: "get_state c w2 = (Inr sample, w3)" and
    q: "DQN c (length sample) 3 w3 = (Inr (), w4)" and
    l: "episode_loop c b ms ne (w4, tr0 @ [ok (EnvInit r (frames w1 ! r)), ok GetState,
           ok (AgentInit (length sample) 3)]) = (Inr u, (w5, tr5))" and
    s: "save_model c (model_path (now c w5)) w5 = (Inr (), w')" and
    p: "path = model_path (now c w5)" and
    t: "tr = tr5 @ [ok (Now (now c w5)), ok (SaveModel (model_path (now c w5)))]"
    by blast
  from d obtain df where
    df: "lookup w data = Some df" "''target'' \<in> set (columns df)" "r = length (frames w)"
        "w1 = w\<lparr>frames := frames w @ [cleaned df]\<rparr>"
    by (auto simp: drop_Inr)
  then have fr: "frames w1 ! r = cleaned df" by simp
  from episode_loop_success [OF l] obtain eps where
    eps: "length eps = ne" "\<forall>ep \<in> set eps. well_formed_episode c ms ep"
         "tr5 = (tr0 @ [ok (EnvInit r (frames w1 ! r)), ok GetState, ok (AgentInit (length sample) 3)])
                @ map ok (concat (map (episode_events b) eps))"
    by blast
  have "lookup w data = Some df \<and> ''target'' \<in> set (columns df) \<and>
      TradingEnvironment c (length (frames w)) (w\<lparr>frames := frames w @ [cleaned df]\<rparr>) = (Inr (), w2) \<and>
      get_state c w2 = (Inr sample, w3) \<and>
      DQN c (length sample) 3 w3 = (Inr (), w4) \<and>
      save_model c path w5 = (Inr (), w') \<and>
      path = model_path (now c w5) \<and>
      length eps = ne \<and> (\<forall>ep \<in> set eps. well_formed_episode c ms ep) \<and>
      tr = tr0 @ map ok ([EnvInit (length (frames w)) (cleaned df), GetState, AgentInit (length sample) 3]
                    @ concat (map (episode_events b) eps)
                    @ [Now (now c w5), SaveModel path])"
    using df e g q s p t eps fr by simp
  then show ?thesis by blast
qed

lemma map_fst_ok: "map fst (map ok es) = es"
  by (induction es) simp_all




subsection \<open>The timestamp\<close>

declare str.simps [simp del]

lemma digit_0: "digit 0 = CHR ''0''"
  by (simp add: digit_def)

lemma is_digit_digit: "is_digit (digit n)"
proof -
  have "n mod 10 < length ''0123456789''" by simp
  then have "''0123456789'' ! (n mod 10) \<in> set ''0123456789''" by (rule nth_mem)
  then show ?thesis by (simp only: is_digit_def digit_def)
qed

lemma str_small: "n < 10 \<Longrightarrow> str n = [digit n]"
  by (simp add: str.simps)

lemma str_step: "10 \<le> n \<Longrightarrow> str n = str (n div 10) @ [digit n]"
  by (simp add: str.simps)

lemma str_two: "10 \<le> n \<Longrightarrow> n < 100 \<Longrightarrow> str n = [digit (n div 10), digit n]"
  by (simp add: str_step str_small)

lemma str_three:
  "100 \<le> n \<Longrightarrow> n < 1000 \<Longrightarrow> str n = [digit (n div 100), digit (n div 10), digit n]"
  using str_two [of "n div 10"] by (simp add: str_step [of n] div_mult2_eq [symmetric])

lemma str_four:
  "1000 \<le> n \<Longrightarrow> n < 10000 \<Longrightarrow>
   str n = [digit (n div 1000), digit (n div 100), digit (n div 10), digit n]"
  using str_three [of "n div 10"] by (simp add: str_step [of n] div_mult2_eq [symmetric])

lemma zfill2:
  assumes "n < 100" shows "zfill 2 (str n) = [digit (n div 10), digit n]"
proof (cases "n < 10")
  case True
  then show ?thesis by (simp add: str_small zfill_def digit_0)
next
  case False
  with assms show ?thesis by (simp add: str_two zfill_def)
qed

lemma strftime_digits:
  assumes "valid_datetime dt"
  shows "strftime dt =
     [digit (year dt div 1000), digit (year dt div 100), digit (year dt div 10), digit (year dt),
      CHR ''-'', digit (month dt div 10), digit (month dt),
      CHR ''-'', digit (day dt div 10), digit (day dt),
      CHR ''_'', digit (hour dt div 10), digit (hour dt),
      CHR ''-'', digit (minute dt div 10), digit (minute dt),
      CHR ''-'', digit (second dt div 10), digit (second dt)]"
  using assms by (simp add: valid_datetime_def strftime_def zfill2 str_four)

lemma strftime_format: "valid_datetime dt \<Longrightarrow> is_timestamp (strftime dt)"
  by (simp add: strftime_digits is_timestamp_def is_digit_digit)

lemma digit_value_nth:
  assumes "k < 10"
  shows "digit_value (''0123456789'' ! k) = Some k"
proof -
  from assms have "k \<in> {0, 1, 2, 3, 4, 5, 6, 7, 8, 9}" by auto
  then show ?thesis by (auto simp: digit_value_def)
qed

lemma digit_value_digit: "digit_value (digit n) = Some (n mod 10)"
  unfolding digit_def by (rule digit_value_nth) simp

lemma number_two: "number [digit a, digit b] = Some (10 * (a mod 10) + b mod 10)"
  by (simp add: number_def digit_value_digit)

lemma number_four:
  "number [digit a, digit b, digit c, digit d] =
     Some (10 * (10 * (10 * (a mod 10) + b mod 10) + c mod 10) + d mod 10)"
  by (simp add: number_def digit_value_digit)

lemma decimal_two: "n < 100 \<Longrightarrow> 10 * (n div 10 mod 10) + n mod 10 = (n::nat)"
  by simp

lemma decimal_four:
  assumes "n < 10000"
  shows "10 * (10 * (10 * (n div 1000 mod 10) + n div 100 mod 10) + n div 10 mod 10) + n mod 10 = (n::nat)"
proof -
  have a: "n div 100 = n div 10 div 10" and b: "n div 1000 = n div 10 div 10 div 10"
    by (simp_all add: div_mult2_eq [symmetric])
  from assms have c: "n div 10 div 10 div 10 < 10" by (simp add: div_mult2_eq [symmetric])
  have 1: "10 * (n div 10 div 10 div 10) + n div 10 div 10 mod 10 = n div 10 div 10"
    by simp
  have 2: "10 * (n div 10 div 10) + n div 10 mod 10 = n div 10"
    by simp
  have 3: "10 * (n div 10) + n mod 10 = n"
    by simp
  show ?thesis
    unfolding a b using c by (simp only: mod_less 1 2 3)
qed

lemma number_field:
  assumes "n < 100"
  shows "number [digit (n div 10), digit n] = Some n"
  by (simp only: number_two decimal_two [OF assms])

lemma number_year:
  assumes "n < 10000"
  shows "number [digit (n div 1000), digit (n div 100), digit (n div 10), digit n] = Some n"
  by (simp only: number_four decimal_four [OF assms])

lemma strptime_strftime:
  assumes "valid_datetime dt"
  shows "strptime (strftime dt) = Some dt"
proof -
  from assms have
    "year dt < 10000" "month dt < 100" "day dt < 100" "hour dt < 100" "minute dt < 100"
    "second dt < 100"
    by (simp_all add: valid_datetime_def)
  then show ?thesis
    by (simp add: strftime_digits [OF assms] strptime_def number_field number_year)
qed

subsection \<open>Runs of the stub collaborators\<close>

lemma stub_run_10:
  "fst (train_model (stub_collab True) 0 (stub_world market 0, []))
   = Inr ''src/learning/trained_models/dqn_model_2023-07-04_09-30-05.h5''"
  by code_simp



lemma stub_now:
  "now (stub_collab True) w = \<lparr>year = 2023, month = 7, day = 4, hour = 9, minute = 30, second = 5\<rparr>"
  by (simp add: stub_collab_def)

subsection \<open>Properties of the log in every run\<close>

text \<open>
  \<open>emits P m\<close>: whatever \<open>m\<close> does, it only appends to the log, and what it appends
  satisfies \<open>P\<close> together with the way \<open>m\<close> ended. Such a property of the parts carries
  over to their sequence when \<open>P\<close> is \<open>sequential\<close>.
\<close>

lemma emitsD:
  assumes "emits P m" and "m (w, tr) = (res, (w', tr'))"
  shows "\<exists>t. tr' = tr @ t \<and> P (failure res) t"
  using assms unfolding emits_def by (metis fst_conv snd_conv)

lemma emits_ret: "P None [] \<Longrightarrow> emits P (ret y)"
  by (simp add: emits_def ret_def failure_def)

lemma emits_invoke:
  assumes "P None [(ev, None)]" and "\<And>x. P (Some (Raised x)) [(ev, Some x)]"
  shows "emits P (invoke ev f)"
  using assms by (auto simp: emits_def invoke_def failure_def split: prod.splits sum.splits)

lemma emits_observe:
  assumes "\<And>w. P None [(ev (f w), None)]"
  shows "emits P (observe ev f)"
  using assms by (simp add: emits_def observe_def failure_def)

lemma emits_invoke_at:
  assumes "\<And>s. P None [(g s, None)]" and "\<And>s x. P (Some (Raised x)) [(g s, Some x)]"
  shows "emits P (\<lambda>s. invoke (g s) f s)"
  using assms by (auto simp: emits_def invoke_def failure_def split: prod.splits sum.splits)

lemma emits_pandas:
  assumes "\<And>w. P (failure (fst (f w))) []"
  shows "emits P (pandas f)"
proof -
  have "P (failure res) []" if "f w = (res, w')" for w res w'
    using assms [of w] that by simp
  then show ?thesis
    by (auto simp: emits_def pandas_def split: prod.splits)
qed

lemma emits_then_do:
  assumes m: "emits P m" and k: "\<And>y. emits P (k y)" and s: "sequential P"
  shows "emits P (then_do m k)"
  unfolding emits_def
proof
  fix s0
  obtain res s1 where 1: "m s0 = (res, s1)" by (cases "m s0")
  from m obtain t1 where t1: "snd s1 = snd s0 @ t1" "P (failure res) t1"
    unfolding emits_def using 1 by (metis fst_conv snd_conv)
  show "\<exists>t. snd (snd (then_do m k s0)) = snd s0 @ t \<and> P (failure (fst (then_do m k s0))) t"
  proof (cases res)
    case (Inl e)
    with 1 t1 show ?thesis by (auto simp: then_do_def failure_def)
  next
    case (Inr y)
    from k [of y] obtain t2 where
      t2: "snd (snd (k y s1)) = snd s1 @ t2" "P (failure (fst (k y s1))) t2"
      unfolding emits_def by blast
    from Inr t1 have "P None t1" by (simp add: failure_def)
    with s t2 have "P (failure (fst (k y s1))) (t1 @ t2)" unfolding sequential_def by blast
    with Inr 1 t1 t2 show ?thesis by (auto simp: then_do_def)
  qed
qed

lemma emits_if: "emits P m1 \<Longrightarrow> emits P m2 \<Longrightarrow> emits P (if b then m1 else m2)"
  by simp

lemma emits_loop_body:
  assumes s: "sequential P" and n: "P None []"
    and c: "\<And>ev. loop_event ev \<Longrightarrow> P None [(ev, None)]"
    and x: "\<And>ev x. loop_event ev \<Longrightarrow> P (Some (Raised x)) [(ev, Some x)]"
  shows "emits P (loop_body c b state)"
  unfolding loop_body_def
  by (intro emits_then_do emits_invoke emits_observe emits_ret emits_if s n c x
      | simp only: split_def | simp add: loop_event_def)+

lemma emits_step_loop:
  assumes body: "\<And>state. emits P (loop_body c b state)" and s: "sequential P" and n: "P None []"
  shows "emits P (step_loop c b k state)"
proof (induction k arbitrary: state)
  case 0
  show ?case by (simp add: emits_ret n)
next
  case (Suc k)
  show ?case
    by (simp only: step_loop.simps split_def)
      (intro emits_then_do body s emits_if emits_ret n Suc.IH)
qed

lemma emits_episode_loop:
  assumes body: "\<And>state. emits P (loop_body c b state)" and s: "sequential P" and n: "P None []"
    and r: "emits P (invoke Reset (reset c))"
  shows "emits P (episode_loop c b ms k)"
proof (induction k)
  case 0
  show ?case by (simp add: emits_ret n)
next
  case (Suc k)
  show ?case
    by (simp only: episode_loop.simps)
      (intro emits_then_do r s emits_step_loop body n Suc.IH)
qed

subsection \<open>Exceptions end the run\<close>

lemma propagated_append:
  assumes "propagated None t1" and "propagated e t2"
  shows "propagated e (t1 @ t2)"
proof (cases e)
  case None
  with assms show ?thesis by auto
next
  case (Some ex)
  with assms show ?thesis by (cases ex) (auto simp: butlast_append)
qed

lemma sequential_propagated: "sequential propagated"
  unfolding sequential_def by (blast intro: propagated_append)

lemma emits_propagated_train:
  "emits propagated (train_model_with ne ms b c data)"
proof -
  have body: "emits propagated (loop_body c b state)" for state
    by (rule emits_loop_body) (simp_all add: sequential_propagated)
  have drop: "emits propagated (pandas (DataFrame_drop [''target''] data))"
    by (rule emits_pandas)
      (auto simp: DataFrame_drop_def failure_def Let_def split: option.splits)
  show ?thesis
    unfolding train_model_with_unfold
    by (intro emits_then_do drop emits_invoke emits_invoke_at emits_observe emits_ret
        emits_episode_loop body sequential_propagated) simp_all
qed

lemma propagated_other:
  assumes "\<forall>y. e \<noteq> Some (Raised y)"
  shows "propagated e t = (\<forall>en \<in> set t. snd en = None)"
proof (cases e)
  case None
  then show ?thesis by simp
next
  case (Some ex)
  with assms show ?thesis by (cases ex) simp_all
qed

lemma broken_run:
  "fst (train_model broken_env 0 (stub_world market 0, [])) = Inl (Raised ''market closed'')"
  by code_simp

lemma broken_trace:
  "snd (snd (train_model broken_env 0 (stub_world market 0, [])))
   = [(EnvInit 1 prices_only, None), (GetState, None), (AgentInit 2 3, None), (Reset, None),
      (Act [0, 0], None), (Step 2, Some ''market closed'')]"
  by code_simp

subsection \<open>The first calls of a run\<close>

lemma train_model_with_setup:
  "train_model_with ne ms b c data =
     then_do (pandas (DataFrame_drop [''target''] data)) (\<lambda>r.
     then_do (\<lambda>s. invoke (EnvInit r (frames (fst s) ! r)) (TradingEnvironment c r) s) (\<lambda>_.
     then_do (invoke GetState (get_state c)) (\<lambda>sample.
     then_do (invoke (AgentInit (length sample) 3) (DQN c (length sample) 3)) (\<lambda>_.
     after_setup c ne ms b))))"
  by (simp add: train_model_with_unfold after_setup_def)

lemma sequential_only: "sequential (only Q)"
  by (auto simp: sequential_def only_def)

lemma loop_event_later: "loop_event ev \<Longrightarrow> later_event ev"
  by (cases ev) (simp_all add: loop_event_def later_event_def)

lemma emits_later_after_setup: "emits (only later_event) (after_setup c ne ms b)"
proof -
  have body: "emits (only later_event) (loop_body c b state)" for state
    by (rule emits_loop_body) (simp_all add: sequential_only only_def loop_event_later)
  show ?thesis
    unfolding after_setup_def
    by (intro emits_then_do emits_invoke emits_observe emits_ret emits_episode_loop body
        sequential_only) (simp_all add: only_def later_event_def)
qed

lemma run_shapes:
  fixes c :: "('v, 'w, 'x, 's, 'a, 'r) collab"
  assumes run: "train_model_with ne ms b c data (w, []) = (res, (w', tr))"
  shows "tr = [] \<and> w' = w \<and>
      (lookup w data = None \<and> res = Inl AttributeError
       \<or> (\<exists>df. lookup w data = Some df \<and> ''target'' \<notin> set (columns df) \<and>
              res = Inl (KeyError [''target''])))
    \<or> (\<exists>df. lookup w data = Some df \<and> ''target'' \<in> set (columns df) \<and>
          (\<exists>x. tr = [(EnvInit (length (frames w)) (cleaned df), Some x)]
           \<or> (\<exists>w2. TradingEnvironment c (length (frames w)) (w\<lparr>frames := frames w @ [cleaned df]\<rparr>)
                      = (Inr (), w2) \<and>
                ((\<exists>x. tr = [(EnvInit (length (frames w)) (cleaned df), None), (GetState, Some x)])
                 \<or> (\<exists>sample w3 out rest. get_state c w2 = (Inr sample, w3) \<and>
                       tr = (EnvInit (length (frames w)) (cleaned df), None) # (GetState, None)
                            # (AgentInit (length sample) 3, out) # rest \<and>
                       (\<forall>en \<in> set rest. later_event (fst en)))))))"
proof (cases "lookup w data")
  case None
  with run show ?thesis
    by (simp add: train_model_with_setup then_do_def pandas_def DataFrame_drop_def)
next
  case (Some df)
  show ?thesis
  proof (cases "''target'' \<in> set (columns df)")
    case False
    with run Some show ?thesis
      by (auto simp: train_model_with_setup then_do_def pandas_def DataFrame_drop_def)
  next
    case True
    let ?r = "length (frames w)"
    let ?w1 = "w\<lparr>frames := frames w @ [cleaned df]\<rparr>"
    let ?E = "EnvInit ?r (cleaned df)"
    have d: "pandas (DataFrame_drop [''target''] data) (w, tr0) = (Inr ?r, (?w1, tr0))" for tr0 :: "('v, 'x, 's, 'a, 'r) entry list"
      using Some True by (simp add: drop_Inr)
    obtain re w2 where e: "TradingEnvironment c ?r ?w1 = (re, w2)"
      by (cases "TradingEnvironment c ?r ?w1")
    show ?thesis
    proof (cases re)
      case (Inl x)
      with run d e have "tr = [(?E, Some x)]"
        by (simp add: train_model_with_setup then_do_def invoke_def)
      with Some True show ?thesis by blast
    next
      case (Inr u)
      obtain rg w3 where g: "get_state c w2 = (rg, w3)" by (cases "get_state c w2")
      show ?thesis
      proof (cases rg)
        case (Inl x)
        with run d e Inr g have "tr = [(?E, None), (GetState, Some x)]"
          by (simp add: train_model_with_setup then_do_def invoke_def)
        with Some True e Inr show ?thesis by auto
      next
        case sample: (Inr sample)
        let ?A = "AgentInit (length sample) 3"
        obtain rq w4 where q: "DQN c (length sample) 3 w3 = (rq, w4)"
          by (cases "DQN c (length sample) 3 w3")
        have "\<exists>out rest. tr = (?E, None) # (GetState, None) # (?A, out) # rest \<and>
                (\<forall>en \<in> set rest. later_event (fst en))"
        proof (cases rq)
          case (Inl x)
          with run d e Inr g sample q have "tr = [(?E, None), (GetState, None), (?A, Some x)]"
            by (simp add: train_model_with_setup then_do_def invoke_def)
          then show ?thesis by simp
        next
          case Inr2: (Inr u2)
          with run d e Inr g sample q have
            "after_setup c ne ms b (w4, [(?E, None), (GetState, None), (?A, None)]) = (res, (w', tr))"
            by (simp add: train_model_with_setup then_do_def invoke_def)
          from emitsD [OF emits_later_after_setup this] show ?thesis
            by (auto simp: only_def)
        qed
        with Some True e Inr g sample show ?thesis by auto
      qed
    qed
  qed
qed

lemma cleaned_with_target: "cleaned (with_target v df) = cleaned df"
  by (induction df) (auto simp: cleaned_def with_target_def)

lemma cleaned_no_target: "''target'' \<notin> set (columns (cleaned df))"
  by (auto simp: cleaned_def columns_def)

lemma later_not_setup:
  "\<not> later_event (EnvInit r d)" "\<not> later_event GetState" "\<not> later_event (AgentInit n m)"
  by (simp_all add: later_event_def)

lemma later_event_simps:
  "later_event ev \<Longrightarrow> ev \<noteq> EnvInit r d \<and> ev \<noteq> GetState \<and> ev \<noteq> AgentInit n m"
  by (auto simp: later_event_def)

lemma stub_agent_entry:
  "2 < length (snd (snd (train_model (stub_collab True) 0 (stub_world market 0, []))))"
  "fst (snd (snd (train_model (stub_collab True) 0 (stub_world market 0, []))) ! 2) = AgentInit 2 3"
  by code_simp+

lemma stub_lookup_market: "lookup (stub_world market k) 0 = Some market"
  by (simp add: lookup_def stub_world_def)

lemma market_has_target: "''target'' \<in> set (columns market)"
  by (simp add: columns_def market_def)

lemma cleaned_market: "cleaned market = prices_only"
  by (simp add: cleaned_def market_def prices_only_def)

subsection \<open>Resets in any run\<close>

lemma resets_append: "resets (t1 @ t2) = resets t1 + resets t2"
  by (simp add: resets_def)







subsection \<open>Frames the collaborators were never given\<close>

lemma keepsD: "keeps I m \<Longrightarrow> m (w, tr) = (res, (w', tr')) \<Longrightarrow> I w \<Longrightarrow> I w'"
  unfolding keeps_def by (metis fst_conv snd_conv)

lemma keeps_ret: "keeps I (ret y)"
  by (simp add: keeps_def ret_def)

lemma keeps_observe: "keeps I (observe ev f)"
  by (simp add: keeps_def observe_def)

lemma keeps_invoke_at:
  assumes "\<And>w. I w \<Longrightarrow> I (snd (f w))"
  shows "keeps I (\<lambda>s. invoke (g s) f s)"
proof -
  have "I w'" if "I w" "f w = (res, w')" for w res w'
    using assms [OF that(1)] that(2) by simp
  then show ?thesis
    by (auto simp: keeps_def invoke_def split: prod.splits sum.splits)
qed

lemma keeps_invoke:
  assumes "\<And>w. I w \<Longrightarrow> I (snd (f w))"
  shows "keeps I (invoke ev f)"
  using keeps_invoke_at [of I f "\<lambda>_. ev"] assms by simp

lemma keeps_then_do:
  assumes "keeps I m" and "\<And>y. keeps I (k y)"
  shows "keeps I (then_do m k)"
proof -
  have 1: "I (fst s1)" if "I (fst s)" "m s = (res, s1)" for s res s1
    using assms(1) that unfolding keeps_def by (metis fst_conv snd_conv)
  have 2: "I (fst s2)" if "I (fst s1)" "k y s1 = (res, s2)" for y s1 res s2
    using assms(2) [of y] that unfolding keeps_def by (metis fst_conv snd_conv)
  have "I (fst (snd (then_do m k s)))" if i: "I (fst s)" for s
  proof -
    obtain res s1 where m: "m s = (res, s1)" by (cases "m s")
    show ?thesis
    proof (cases res)
      case (Inl e)
      with m 1 [OF i] show ?thesis by (simp add: then_do_def)
    next
      case (Inr y)
      obtain r2 s2 where k: "k y s1 = (r2, s2)" by (cases "k y s1")
      from 1 [OF i] m Inr have "I (fst s1)" by simp
      from 2 [OF this k] m Inr k show ?thesis by (simp add: then_do_def)
    qed
  qed
  then show ?thesis unfolding keeps_def by blast
qed

lemma keeps_if: "keeps I m1 \<Longrightarrow> keeps I m2 \<Longrightarrow> keeps I (if b then m1 else m2)"
  by simp

lemma leaves_aloneD:
  assumes "leaves_alone c a"
  shows "r \<noteq> a \<Longrightarrow> lookup (snd (TradingEnvironment c r w)) a = lookup w a"
    and "lookup (snd (get_state c w)) a = lookup w a"
    and "lookup (snd (DQN c n m w)) a = lookup w a"
    and "lookup (snd (reset c w)) a = lookup w a"
    and "lookup (snd (act c s w)) a = lookup w a"
    and "lookup (snd (step c x w)) a = lookup w a"
    and "lookup (snd (remember c s x rw s' d w)) a = lookup w a"
    and "lookup (snd (replay c b w)) a = lookup w a"
    and "lookup (snd (save_model c p w)) a = lookup w a"
  using assms unfolding leaves_alone_def by blast+

lemma keeps_loop_body:
  assumes "leaves_alone c a"
  shows "keeps (\<lambda>w. lookup w a = v) (loop_body c b state)"
proof -
  note D = leaves_aloneD [OF assms]
  have 1: "keeps (\<lambda>w. lookup w a = v) (invoke (Act s) (act c s))" for s
    by (rule keeps_invoke) (simp add: D)
  have 2: "keeps (\<lambda>w. lookup w a = v) (invoke (Step x) (step c x))" for x
    by (rule keeps_invoke) (simp add: D)
  have 3: "keeps (\<lambda>w. lookup w a = v) (invoke (Remember s x r s' d) (remember c s x r s' d))"
    for s x r s' d
    by (rule keeps_invoke) (simp add: D)
  have 4: "keeps (\<lambda>w. lookup w a = v) (invoke (Replay n) (replay c n))" for n
    by (rule keeps_invoke) (simp add: D)
  show ?thesis
    unfolding loop_body_def
    by (intro keeps_then_do 1 2 3 4 keeps_observe keeps_ret keeps_if | simp only: split_def)+
qed

lemma keeps_step_loop:
  assumes "leaves_alone c a"
  shows "keeps (\<lambda>w. lookup w a = v) (step_loop c b k state)"
proof (induction k arbitrary: state)
  case 0
  show ?case by (simp add: keeps_ret)
next
  case (Suc k)
  show ?case
    by (simp only: step_loop.simps split_def)
      (intro keeps_then_do keeps_loop_body assms keeps_if keeps_ret Suc.IH)
qed

lemma keeps_episode_loop:
  assumes "leaves_alone c a"
  shows "keeps (\<lambda>w. lookup w a = v) (episode_loop c b ms k)"
proof (induction k)
  case 0
  show ?case by (simp add: keeps_ret)
next
  case (Suc k)
  have r: "keeps (\<lambda>w. lookup w a = v) (invoke Reset (reset c))"
    by (rule keeps_invoke) (simp add: leaves_aloneD [OF assms])
  show ?case
    by (simp only: episode_loop.simps)
      (intro keeps_then_do r keeps_step_loop assms Suc.IH)
qed

lemma keeps_after_setup:
  assumes "leaves_alone c a"
  shows "keeps (\<lambda>w. lookup w a = v) (after_setup c ne ms b)"
proof -
  have s: "keeps (\<lambda>w. lookup w a = v) (invoke (SaveModel p) (save_model c p))" for p
    by (rule keeps_invoke) (simp add: leaves_aloneD [OF assms])
  show ?thesis
    unfolding after_setup_def
    by (intro keeps_then_do keeps_episode_loop assms keeps_observe s keeps_ret)
qed

lemma keeps_from_constructor:
  assumes "leaves_alone c a" and "r \<noteq> a"
  shows "keeps (\<lambda>w. lookup w a = v)
     (then_do (\<lambda>s. invoke (EnvInit r (frames (fst s) ! r)) (TradingEnvironment c r) s) (\<lambda>_.
      then_do (invoke GetState (get_state c)) (\<lambda>sample.
      then_do (invoke (AgentInit (length sample) 3) (DQN c (length sample) 3)) (\<lambda>_.
      after_setup c ne ms b))))"
proof -
  note D = leaves_aloneD [OF assms(1)]
  have 1: "keeps (\<lambda>w. lookup w a = v)
      (\<lambda>s. invoke (EnvInit r (frames (fst s) ! r)) (TradingEnvironment c r) s)"
    by (rule keeps_invoke_at) (simp add: D(1) [OF assms(2)])
  have 2: "keeps (\<lambda>w. lookup w a = v) (invoke GetState (get_state c))"
    by (rule keeps_invoke) (simp add: D)
  have 3: "keeps (\<lambda>w. lookup w a = v) (invoke (AgentInit n m) (DQN c n m))" for n m
    by (rule keeps_invoke) (simp add: D)
  show ?thesis
    by (intro keeps_then_do 1 2 3 keeps_after_setup assms(1))
qed

lemma stub_leaves_alone: "leaves_alone (stub_collab d) a"
  by (simp add: leaves_alone_def stub_collab_def lookup_def)

subsection \<open>The replay rule\<close>

lemma run_rule_append:
  "run_rule b p (t1 @ t2) = (case run_rule b p t1 of None \<Rightarrow> None | Some p' \<Rightarrow> run_rule b p' t2)"
  by (induction t1 arbitrary: p) (auto split: option.splits)

lemma sequential_accepted: "sequential (accepted b)"
  by (simp add: sequential_def accepted_def run_rule_append)

lemma accepted_plain:
  assumes "\<not> loop_event ev"
  shows "accepted b e [(ev, out)]"
  using assms by (cases ev) (simp_all add: accepted_def advance_def loop_event_def)

lemma emits_accepted_loop_body: "emits (accepted b) (loop_body c b state)"
  by (auto simp: emits_def loop_body_def then_do_def invoke_def observe_def ret_def
      accepted_def advance_def failure_def split: prod.splits sum.splits)

lemma emits_measured_loop_body: "emits (only (measured c)) (loop_body c b state)"
  by (auto simp: emits_def loop_body_def then_do_def invoke_def observe_def ret_def
      only_def measured_def failure_def split: prod.splits sum.splits)

lemma emits_accepted_train: "emits (accepted b) (train_model_with ne ms b c data)"
proof -
  have drop: "emits (accepted b) (pandas (DataFrame_drop [''target''] data))"
    by (rule emits_pandas) (simp add: accepted_def)
  show ?thesis
    unfolding train_model_with_unfold
    by (intro emits_then_do drop emits_invoke emits_invoke_at emits_observe emits_ret
        emits_episode_loop emits_accepted_loop_body sequential_accepted accepted_plain)
      (simp_all add: loop_event_def accepted_def)
qed

lemma emits_measured_train: "emits (only (measured c)) (train_model_with ne ms b c data)"
proof -
  have drop: "emits (only (measured c)) (pandas (DataFrame_drop [''target''] data))"
    by (rule emits_pandas) (simp add: only_def)
  show ?thesis
    unfolding train_model_with_unfold
    by (intro emits_then_do drop emits_invoke emits_invoke_at emits_observe emits_ret
        emits_episode_loop emits_measured_loop_body sequential_only)
      (simp_all add: only_def measured_def)
qed

lemma advance_length:
  assumes "advance b p en = Some p'" and "fst en = MemoryLen k"
  shows "p = LengthDue \<and> snd en = None \<and> p' = (if b < k then ReplayDue else Neutral)"
  using assms by (auto simp: advance_def split: if_splits)

lemma advance_replay:
  assumes "advance b p en = Some p'" and "fst en = Replay n"
  shows "p = ReplayDue \<and> n = b \<and> p' = Neutral"
  using assms by (auto simp: advance_def split: if_splits)

lemma advance_remember:
  assumes "advance b p (Remember s a r s' d, None) = Some p'"
  shows "p' = LengthDue"
  using assms by (auto simp: advance_def split: if_splits)

lemma advance_to_LengthDue:
  assumes "advance b p en = Some LengthDue"
  shows "\<exists>s a r s' d. en = (Remember s a r s' d, None)"
  using assms by (cases en, cases "fst en") (auto simp: advance_def split: if_splits)

lemma advance_to_ReplayDue:
  assumes "advance b p en = Some ReplayDue"
  shows "\<exists>k. en = (MemoryLen k, None) \<and> b < k"
  using assms by (cases en, cases "fst en") (auto simp: advance_def split: if_splits)

lemma advance_from_LengthDue:
  assumes "advance b LengthDue en = Some p'"
  shows "\<exists>k. en = (MemoryLen k, None)"
  using assms by (cases en, cases "fst en") (auto simp: advance_def split: if_splits)

lemma advance_from_ReplayDue:
  assumes "advance b ReplayDue en = Some p'"
  shows "fst en = Replay b"
  using assms by (cases en, cases "fst en") (auto simp: advance_def split: if_splits)

lemma advance_from_Neutral:
  assumes "advance b Neutral en = Some p'"
  shows "fst en \<noteq> Replay n"
  using assms by (auto simp: advance_def split: if_splits)

lemma run_rule_at:
  assumes "run_rule b p t = Some q" and "i < length t"
  shows "\<exists>pi pi'. run_rule b p (take i t) = Some pi \<and> advance b pi (t ! i) = Some pi' \<and>
           run_rule b pi' (drop (Suc i) t) = Some q"
proof -
  from assms(2) have "t = take i t @ t ! i # drop (Suc i) t"
    by (simp add: id_take_nth_drop)
  then have "run_rule b p (take i t @ t ! i # drop (Suc i) t) = Some q"
    using assms(1) by simp
  then show ?thesis
    by (auto simp: run_rule_append split: option.splits)
qed

lemma run_rule_snoc:
  assumes "i < length t"
  shows "run_rule b p (take (Suc i) t) =
           (case run_rule b p (take i t) of None \<Rightarrow> None | Some pi \<Rightarrow> advance b pi (t ! i))"
  using assms by (simp add: take_Suc_conv_app_nth run_rule_append split: option.splits)

lemma accepted_length_read:
  assumes acc: "run_rule b Neutral t = Some Neutral" and i: "i < length t"
    and ev: "fst (t ! i) = MemoryLen k"
  shows "0 < i \<and> (\<exists>s a r s' d. t ! (i - 1) = (Remember s a r s' d, None)) \<and>
         (b < k \<longleftrightarrow> Suc i < length t \<and> fst (t ! Suc i) = Replay b)"
proof -
  from run_rule_at [OF acc i] obtain pi pi' where
    before: "run_rule b Neutral (take i t) = Some pi" and
    adv: "advance b pi (t ! i) = Some pi'" and
    rest: "run_rule b pi' (drop (Suc i) t) = Some Neutral"
    by blast
  from advance_length [OF adv ev] have
    pi: "pi = LengthDue" and pi': "pi' = (if b < k then ReplayDue else Neutral)"
    by simp_all
  have pos: "0 < i"
  proof (rule ccontr)
    assume "\<not> 0 < i"
    with before pi show False by simp
  qed
  then obtain j where j: "i = Suc j" by (cases i) auto
  with i have jl: "j < length t" by simp
  from before pi j run_rule_snoc [OF jl, of b Neutral]
  obtain pj where "advance b pj (t ! j) = Some LengthDue"
    by (auto split: option.splits)
  from advance_to_LengthDue [OF this] j
  have prev: "\<exists>s a r s' d. t ! (i - 1) = (Remember s a r s' d, None)" by simp
  have nxt: "b < k \<longleftrightarrow> Suc i < length t \<and> fst (t ! Suc i) = Replay b"
  proof (cases "Suc i < length t")
    case True
    then have d: "drop (Suc i) t = t ! Suc i # drop (Suc (Suc i)) t"
      by (simp add: Cons_nth_drop_Suc)
    with rest obtain p2 where a2: "advance b pi' (t ! Suc i) = Some p2"
      by (auto split: option.splits)
    show ?thesis
    proof (cases "b < k")
      case True
      with pi' a2 advance_from_ReplayDue [of b "t ! Suc i" p2] \<open>Suc i < length t\<close>
      show ?thesis by simp
    next
      case False
      with pi' a2 advance_from_Neutral [of b "t ! Suc i" p2 b]
      show ?thesis by simp
    qed
  next
    case False
    with rest have "pi' = Neutral" by simp
    with pi' False show ?thesis by (auto split: if_splits)
  qed
  from pos prev nxt show ?thesis by simp
qed

lemma accepted_replay:
  assumes acc: "run_rule b Neutral t = Some Neutral" and i: "i < length t"
    and ev: "fst (t ! i) = Replay n"
  shows "n = b \<and> 0 < i \<and> (\<exists>k. t ! (i - 1) = (MemoryLen k, None) \<and> b < k)"
proof -
  from run_rule_at [OF acc i] obtain pi pi' where
    before: "run_rule b Neutral (take i t) = Some pi" and
    adv: "advance b pi (t ! i) = Some pi'"
    by blast
  from advance_replay [OF adv ev] have pi: "pi = ReplayDue" and n: "n = b" by simp_all
  have pos: "0 < i"
  proof (rule ccontr)
    assume "\<not> 0 < i"
    with before pi show False by simp
  qed
  then obtain j where j: "i = Suc j" by (cases i) auto
  with i have jl: "j < length t" by simp
  from before pi j run_rule_snoc [OF jl, of b Neutral]
  obtain pj where "advance b pj (t ! j) = Some ReplayDue"
    by (auto split: option.splits)
  from advance_to_ReplayDue [OF this] j n pos show ?thesis by simp
qed

lemma accepted_remember:
  assumes acc: "run_rule b Neutral t = Some Neutral" and i: "i < length t"
    and ev: "t ! i = (Remember s a r s' d, None)"
  shows "Suc i < length t \<and> (\<exists>k. t ! Suc i = (MemoryLen k, None))"
proof -
  from run_rule_at [OF acc i] obtain pi pi' where
    adv: "advance b pi (t ! i) = Some pi'" and
    rest: "run_rule b pi' (drop (Suc i) t) = Some Neutral"
    by blast
  from adv ev advance_remember have pi': "pi' = LengthDue" by metis
  have lt: "Suc i < length t"
  proof (rule ccontr)
    assume "\<not> Suc i < length t"
    with rest pi' show False by simp
  qed
  then have "drop (Suc i) t = t ! Suc i # drop (Suc (Suc i)) t"
    by (simp add: Cons_nth_drop_Suc)
  with rest pi' obtain p2 where "advance b LengthDue (t ! Suc i) = Some p2"
    by (auto split: option.splits)
  from advance_from_LengthDue [OF this] lt show ?thesis by simp
qed

lemma loop_body_after_remember:
  assumes "act c state w0 = (Inr action, w1)"
    and "step c action w1 = (Inr (next_state, reward, done), w2)"
    and "remember c state action reward next_state done w2 = (Inr (), w3)"
  shows "loop_body c b state (w0, tr0) =
     then_do (if b < memory_len c w3 then invoke (Replay b) (replay c b) else ret ())
       (\<lambda>_. ret (next_state, done))
       (w3, tr0 @ [(Act state, None), (Step action, None),
                   (Remember state action reward next_state done, None),
                   (MemoryLen (memory_len c w3), None)])"
  using assms by (simp add: loop_body_def then_do_def invoke_def observe_def)

lemma stub_crossing:
  "12 < length (snd (snd (train_model (stub_collab True) 0 (stub_world market 63, []))))"
  "fst (snd (snd (train_model (stub_collab True) 0 (stub_world market 63, []))) ! 12) = MemoryLen 65"
  "fst (snd (snd (train_model (stub_collab True) 0 (stub_world market 63, []))) ! 7) = MemoryLen 64"
  by code_simp+

section \<open>The claims\<close>



text \<open>
  C2. With \<open>BATCH_SIZE = 64\<close>: in the log of any run, the memory length is read exactly
  after a \<^verbatim>\<open>remember\<close> that returned (every such \<^verbatim>\<open>remember\<close> is followed by the read, and
  every read follows one), the value read is the agent's memory length, and the call after
  the read is \<^verbatim>\<open>replay(64)\<close> if and only if the value read exceeds 64; \<^verbatim>\<open>replay\<close> is called
  nowhere else and with no other argument. Hence an agent whose memory length never
  exceeds 64 is never asked to replay. The last part ties the read to the world: once
  \<^verbatim>\<open>remember\<close> has returned the world \<open>w3\<close>, the iteration goes on with the length of
  the memory in \<open>w3\<close> and calls \<^verbatim>\<open>replay(64)\<close> on \<open>w3\<close> exactly when that length exceeds
  64.
\<close>

theorem replay_iff_memory_exceeds_batch:
  "BATCH_SIZE = 64 \<and>
   (train_model c data (w, []) = (res, (w', tr)) \<longrightarrow>
      (\<forall>i k. i < length tr \<and> fst (tr ! i) = MemoryLen k \<longrightarrow>
         0 < i \<and> (\<exists>s a r s' d. tr ! (i - 1) = (Remember s a r s' d, None)) \<and>
         (\<exists>wm. k = memory_len c wm) \<and>
         (BATCH_SIZE < k \<longleftrightarrow> Suc i < length tr \<and> fst (tr ! Suc i) = Replay BATCH_SIZE)) \<and>
      (\<forall>i n. i < length tr \<and> fst (tr ! i) = Replay n \<longrightarrow>
         n = BATCH_SIZE \<and> 0 < i \<and> (\<exists>k. tr ! (i - 1) = (MemoryLen k, None) \<and> BATCH_SIZE < k)) \<and>
      (\<forall>i s a r s' d. i < length tr \<and> tr ! i = (Remember s a r s' d, None) \<longrightarrow>
         Suc i < length tr \<and> (\<exists>k. tr ! Suc i = (MemoryLen k, None))) \<and>
      ((\<forall>wm. memory_len c wm \<le> BATCH_SIZE) \<longrightarrow> (\<forall>i n. i < length tr \<longrightarrow> fst (tr ! i) \<noteq> Replay n)))
   \<and> (act c state w0 = (Inr action, w1) \<and>
      step c action w1 = (Inr (next_state, reward, done), w2) \<and>
      remember c state action reward next_state done w2 = (Inr (), w3) \<longrightarrow>
      loop_body c BATCH_SIZE state (w0, tr0) =
        then_do (if BATCH_SIZE < memory_len c w3
                 then invoke (Replay BATCH_SIZE) (replay c BATCH_SIZE) else ret ())
          (\<lambda>_. ret (next_state, done))
          (w3, tr0 @ [(Act state, None), (Step action, None),
                      (Remember state action reward next_state done, None),
                      (MemoryLen (memory_len c w3), None)]))"
proof (intro conjI impI)
  show "BATCH_SIZE = 64" by (simp add: BATCH_SIZE_def)
next
  assume "act c state w0 = (Inr action, w1) \<and>
      step c action w1 = (Inr (next_state, reward, done), w2) \<and>
      remember c state action reward next_state done w2 = (Inr (), w3)"
  then show "loop_body c BATCH_SIZE state (w0, tr0) =
        then_do (if BATCH_SIZE < memory_len c w3
                 then invoke (Replay BATCH_SIZE) (replay c BATCH_SIZE) else ret ())
          (\<lambda>_. ret (next_state, done))
          (w3, tr0 @ [(Act state, None), (Step action, None),
                      (Remember state action reward next_state done, None),
                      (MemoryLen (memory_len c w3), None)])"
    using loop_body_after_remember [of c state w0 action w1 next_state reward "done" w2 w3]
    by blast
next
  assume "train_model c data (w, []) = (res, (w', tr))"
  then have
    run: "train_model_with NUM_EPISODES MAX_STEPS BATCH_SIZE c data (w, []) = (res, (w', tr))"
    by (simp add: train_model_def)
  from emitsD [OF emits_accepted_train run]
  have acc: "run_rule BATCH_SIZE Neutral tr = Some Neutral"
    by (simp add: accepted_def)
  from emitsD [OF emits_measured_train run]
  have mes: "\<forall>en \<in> set tr. measured c (fst en)"
    by (simp add: only_def)
  have m: "\<exists>wm. k = memory_len c wm" if "i < length tr" "fst (tr ! i) = MemoryLen k" for i k
    using mes that unfolding measured_def by (metis nth_mem)
  show 1: "\<forall>i k. i < length tr \<and> fst (tr ! i) = MemoryLen k \<longrightarrow>
         0 < i \<and> (\<exists>s a r s' d. tr ! (i - 1) = (Remember s a r s' d, None)) \<and>
         (\<exists>wm. k = memory_len c wm) \<and>
         (BATCH_SIZE < k \<longleftrightarrow> Suc i < length tr \<and> fst (tr ! Suc i) = Replay BATCH_SIZE)"
    using accepted_length_read [OF acc] m by blast
  show 2: "\<forall>i n. i < length tr \<and> fst (tr ! i) = Replay n \<longrightarrow>
         n = BATCH_SIZE \<and> 0 < i \<and> (\<exists>k. tr ! (i - 1) = (MemoryLen k, None) \<and> BATCH_SIZE < k)"
    using accepted_replay [OF acc] by blast
  show "\<forall>i s a r s' d. i < length tr \<and> tr ! i = (Remember s a r s' d, None) \<longrightarrow>
         Suc i < length tr \<and> (\<exists>k. tr ! Suc i = (MemoryLen k, None))"
    using accepted_remember [OF acc] by blast
  show "\<forall>i n. i < length tr \<longrightarrow> fst (tr ! i) \<noteq> Replay n"
    if low: "\<forall>wm. memory_len c wm \<le> BATCH_SIZE"
  proof (intro allI impI notI)
    fix i n assume i: "i < length tr" and r: "fst (tr ! i) = Replay n"
    from 2 i r obtain k where k: "0 < i" "tr ! (i - 1) = (MemoryLen k, None)" "BATCH_SIZE < k"
      by blast
    from k(1) i have "i - 1 < length tr" by simp
    from m [OF this, of k] k(2) obtain wm where "k = memory_len c wm" by auto
    with low k(3) show False by (simp add: not_less [symmetric])
  qed
qed

theorem replay_iff_memory_exceeds_batch_witness:
  "Suc 12 < length (snd (snd (train_model (stub_collab True) 0 (stub_world market 63, [])))) \<and>
   fst (snd (snd (train_model (stub_collab True) 0 (stub_world market 63, []))) ! Suc 12)
     = Replay BATCH_SIZE \<and>
   \<not> (Suc 7 < length (snd (snd (train_model (stub_collab True) 0 (stub_world market 63, [])))) \<and>
      fst (snd (snd (train_model (stub_collab True) 0 (stub_world market 63, []))) ! Suc 7)
        = Replay BATCH_SIZE) \<and>
   loop_body (stub_collab True) BATCH_SIZE [0, 0] (stub_world market 64, [])
     = (Inr ([1, 1], True), (stub_world market 65,
         [(Act [0, 0], None), (Step 2, None), (Remember [0, 0] 2 5 [1, 1] True, None),
          (MemoryLen 65, None), (Replay 64, None)]))"
proof -
  let ?a = "train_model (stub_collab True) 0 (stub_world market 63, [])"
  have a: "?a = (fst ?a, (fst (snd ?a), snd (snd ?a)))" by simp
  have s1: "act (stub_collab True) [0, 0] (stub_world market 64) = (Inr 2, stub_world market 64)"
    by (simp add: stub_collab_def)
  have s2: "step (stub_collab True) 2 (stub_world market 64)
           = (Inr ([1, 1], 5, True), stub_world market 64)"
    by (simp add: stub_collab_def)
  have s3: "remember (stub_collab True) [0, 0] 2 5 [1, 1] True (stub_world market 64)
           = (Inr (), stub_world market 65)"
    by (simp add: stub_collab_def stub_world_def)
  note inst = replay_iff_memory_exceeds_batch [of "stub_collab True" 0 "stub_world market 63"
      "fst ?a" "fst (snd ?a)" "snd (snd ?a)" "[0, 0]" "stub_world market 64" 2
      "stub_world market 64" "[1, 1]" 5 True "stub_world market 64" "stub_world market 65" "[]"]
  note of_run = inst [THEN conjunct2, THEN conjunct1, THEN mp, OF a]
  note length_read = of_run [THEN conjunct1, rule_format]
  note of_body = inst [THEN conjunct2, THEN conjunct2, THEN mp, OF conjI [OF s1 conjI [OF s2 s3]]]
  have b: "BATCH_SIZE < 65" "\<not> BATCH_SIZE < 64" by (simp_all add: BATCH_SIZE_def)
  from length_read [of 12 65] stub_crossing(1,2) b(1) have 1:
    "Suc 12 < length (snd (snd ?a)) \<and> fst (snd (snd ?a) ! Suc 12) = Replay BATCH_SIZE"
    by blast
  have "7 < length (snd (snd ?a))" using stub_crossing(1) by simp
  with length_read [of 7 64] stub_crossing(3) b(2) have 2:
    "\<not> (Suc 7 < length (snd (snd ?a)) \<and> fst (snd (snd ?a) ! Suc 7) = Replay BATCH_SIZE)"
    by blast
  from of_body have 3:
    "loop_body (stub_collab True) BATCH_SIZE [0, 0] (stub_world market 64, [])
     = (Inr ([1, 1], True), (stub_world market 65,
         [(Act [0, 0], None), (Step 2, None), (Remember [0, 0] 2 5 [1, 1] True, None),
          (MemoryLen 65, None), (Replay 64, None)]))"
    by (simp add: BATCH_SIZE_def stub_collab_def stub_world_def then_do_def invoke_def ret_def)
  from 1 2 3 show ?thesis by blast
qed

text \<open>
  C3. A call that returns gives the string
  \<^verbatim>\<open>src/learning/trained_models/dqn_model_<timestamp>.h5\<close>, where the timestamp is
  \<^verbatim>\<open>strftime\<close> of the clock value read after the log already holds all \<open>NUM_EPISODES\<close>
  episodes. For a date and time within Python's ranges and a year of four digits the
  timestamp is, digit for digit, the year, month, day, hour, minute and second of that
  clock value in the shape \<^verbatim>\<open>YYYY-MM-DD_HH-MM-SS\<close>, and reading it back gives the clock value
  again. The last call made is \<^verbatim>\<open>save_model\<close> with exactly the string returned, and it did
  not raise. The string ends in \<^verbatim>\<open>.h5\<close>.
\<close>

theorem returned_path_is_saved_model:
  assumes "train_model c data (w, []) = (Inr path, (w', tr))"
  shows "\<exists>dt pre eps r df n w5.
     path = ''src/learning/trained_models/dqn_model_'' @ strftime dt @ ''.h5'' \<and>
     (valid_datetime dt \<longrightarrow> is_timestamp (strftime dt)) \<and>
     (valid_datetime dt \<longrightarrow>
        strftime dt =
          [digit (year dt div 1000), digit (year dt div 100), digit (year dt div 10),
           digit (year dt),
           CHR ''-'', digit (month dt div 10), digit (month dt),
           CHR ''-'', digit (day dt div 10), digit (day dt),
           CHR ''_'', digit (hour dt div 10), digit (hour dt),
           CHR ''-'', digit (minute dt div 10), digit (minute dt),
           CHR ''-'', digit (second dt div 10), digit (second dt)]) \<and>
     (valid_datetime dt \<longrightarrow> strptime (strftime dt) = Some dt) \<and>
     (\<exists>stem. path = stem @ ''.h5'') \<and>
     dt = now c w5 \<and> save_model c path w5 = (Inr (), w') \<and>
     tr = pre @ [(Now dt, None), (SaveModel path, None)] \<and>
     map fst pre = [EnvInit r df, GetState, AgentInit n 3]
                   @ concat (map (episode_events BATCH_SIZE) eps) \<and>
     length eps = NUM_EPISODES"
proof -
  from assms have
    "train_model_with NUM_EPISODES MAX_STEPS BATCH_SIZE c data (w, []) = (Inr path, (w', tr))"
    by (simp add: train_model_def)
  from train_model_with_success [OF this] obtain df sample eps w2 w3 w5 where
    g: "get_state c w2 = (Inr sample, w3)" and
    s: "save_model c path w5 = (Inr (), w')" and
    p: "path = model_path (now c w5)" and
    eps: "length eps = NUM_EPISODES" and
    tr: "tr = [] @ map ok ([EnvInit (length (frames w)) (cleaned df), GetState, AgentInit (length sample) 3]
                    @ concat (map (episode_events BATCH_SIZE) eps)
                    @ [Now (now c w5), SaveModel path])"
    by blast
  let ?dt = "now c w5"
  let ?pre = "map ok ([EnvInit (length (frames w)) (cleaned df), GetState, AgentInit (length sample) 3]
                    @ concat (map (episode_events BATCH_SIZE) eps))"
  have 1: "path = ''src/learning/trained_models/dqn_model_'' @ strftime ?dt @ ''.h5''"
    using p by (simp only: model_path_def)
  have 2: "valid_datetime ?dt \<longrightarrow> is_timestamp (strftime ?dt)"
    by (simp add: strftime_format)
  have 3: "\<exists>stem. path = stem @ ''.h5''"
    using 1 by (metis append.assoc)
  have 4: "tr = ?pre @ [(Now ?dt, None), (SaveModel path, None)]"
    using tr by simp
  have 5: "map fst ?pre = [EnvInit (length (frames w)) (cleaned df), GetState, AgentInit (length sample) 3]
                   @ concat (map (episode_events BATCH_SIZE) eps)"
    by (simp only: map_fst_ok)
  have 6: "valid_datetime ?dt \<longrightarrow>
        strftime ?dt =
          [digit (year ?dt div 1000), digit (year ?dt div 100), digit (year ?dt div 10),
           digit (year ?dt),
           CHR ''-'', digit (month ?dt div 10), digit (month ?dt),
           CHR ''-'', digit (day ?dt div 10), digit (day ?dt),
           CHR ''_'', digit (hour ?dt div 10), digit (hour ?dt),
           CHR ''-'', digit (minute ?dt div 10), digit (minute ?dt),
           CHR ''-'', digit (second ?dt div 10), digit (second ?dt)]"
    using strftime_digits [of ?dt] by blast
  have 7: "valid_datetime ?dt \<longrightarrow> strptime (strftime ?dt) = Some ?dt"
    using strptime_strftime [of ?dt] by blast
  have "path = ''src/learning/trained_models/dqn_model_'' @ strftime ?dt @ ''.h5'' \<and>
     (valid_datetime ?dt \<longrightarrow> is_timestamp (strftime ?dt)) \<and>
     (valid_datetime ?dt \<longrightarrow>
        strftime ?dt =
          [digit (year ?dt div 1000), digit (year ?dt div 100), digit (year ?dt div 10),
           digit (year ?dt),
           CHR ''-'', digit (month ?dt div 10), digit (month ?dt),
           CHR ''-'', digit (day ?dt div 10), digit (day ?dt),
           CHR ''_'', digit (hour ?dt div 10), digit (hour ?dt),
           CHR ''-'', digit (minute ?dt div 10), digit (minute ?dt),
           CHR ''-'', digit (second ?dt div 10), digit (second ?dt)]) \<and>
     (valid_datetime ?dt \<longrightarrow> strptime (strftime ?dt) = Some ?dt) \<and>
     (\<exists>stem. path = stem @ ''.h5'') \<and>
     ?dt = now c w5 \<and> save_model c path w5 = (Inr (), w') \<and>
     tr = ?pre @ [(Now ?dt, None), (SaveModel path, None)] \<and>
     map fst ?pre = [EnvInit (length (frames w)) (cleaned df), GetState, AgentInit (length sample) 3]
                   @ concat (map (episode_events BATCH_SIZE) eps) \<and>
     length eps = NUM_EPISODES"
    using 1 2 3 4 5 6 7 s eps by (intro conjI) simp_all
  then show ?thesis by blast
qed

theorem returned_path_is_saved_model_witness:
  "\<exists>dt pre eps r df n w5.
     ''src/learning/trained_models/dqn_model_2023-07-04_09-30-05.h5''
       = ''src/learning/trained_models/dqn_model_'' @ strftime dt @ ''.h5'' \<and>
     dt = \<lparr>year = 2023, month = 7, day = 4, hour = 9, minute = 30, second = 5\<rparr> \<and>
     strftime dt = ''2023-07-04_09-30-05'' \<and>
     strptime ''2023-07-04_09-30-05'' = Some dt \<and>
     valid_datetime dt \<and> is_timestamp (strftime dt) \<and>
     dt = now (stub_collab True) w5 \<and>
     snd (snd (train_model (stub_collab True) 0 (stub_world market 0, [])))
       = pre @ [(Now dt, None),
                (SaveModel ''src/learning/trained_models/dqn_model_2023-07-04_09-30-05.h5'', None)] \<and>
     map fst pre = [EnvInit r df, GetState, AgentInit n 3]
                   @ concat (map (episode_events BATCH_SIZE) eps) \<and>
     length eps = NUM_EPISODES"
proof -
  let ?p = "''src/learning/trained_models/dqn_model_2023-07-04_09-30-05.h5''"
  let ?d = "\<lparr>year = 2023, month = 7, day = 4, hour = 9, minute = 30, second = 5\<rparr>"
  let ?a = "train_model (stub_collab True) 0 (stub_world market 0, [])"
  have a: "?a = (Inr ?p, (fst (snd ?a), snd (snd ?a)))"
    using stub_run_10 by (simp add: prod_eq_iff)
  have v: "valid_datetime ?d"
    by (simp add: valid_datetime_def)
  from returned_path_is_saved_model [OF a] obtain dt pre eps r df n w5 where
    1: "?p = ''src/learning/trained_models/dqn_model_'' @ strftime dt @ ''.h5''" and
    2: "valid_datetime dt \<longrightarrow> is_timestamp (strftime dt)" and
    3: "valid_datetime dt \<longrightarrow> strptime (strftime dt) = Some dt" and
    4: "dt = now (stub_collab True) w5" and
    5: "snd (snd ?a) = pre @ [(Now dt, None), (SaveModel ?p, None)]" and
    6: "map fst pre = [EnvInit r df, GetState, AgentInit n 3]
                   @ concat (map (episode_events BATCH_SIZE) eps)" and
    7: "length eps = NUM_EPISODES"
    by blast
  from 4 have d: "dt = ?d" by (simp add: stub_now)
  from 1 have t: "strftime dt = ''2023-07-04_09-30-05''" by simp
  from 3 d v t have r: "strptime ''2023-07-04_09-30-05'' = Some dt" by simp
  from 2 d v have i: "is_timestamp (strftime dt)" by simp
  from d v have v': "valid_datetime dt" by simp
  have "?p = ''src/learning/trained_models/dqn_model_'' @ strftime dt @ ''.h5'' \<and>
     dt = ?d \<and> strftime dt = ''2023-07-04_09-30-05'' \<and>
     strptime ''2023-07-04_09-30-05'' = Some dt \<and>
     valid_datetime dt \<and> is_timestamp (strftime dt) \<and>
     dt = now (stub_collab True) w5 \<and>
     snd (snd ?a) = pre @ [(Now dt, None), (SaveModel ?p, None)] \<and>
     map fst pre = [EnvInit r df, GetState, AgentInit n 3]
                   @ concat (map (episode_events BATCH_SIZE) eps) \<and>
     length eps = NUM_EPISODES"
    using 1 d t r v' i 4 5 6 7 by (intro conjI)
  then show ?thesis by blast
qed

text \<open>
  C4. When the caller's frame has a \<open>target\<close> column, the first call of the run is the
  environment's constructor, on a newly allocated frame that is the caller's frame without
  its \<open>target\<close> columns; no other call constructs an environment. The frame passed has no
  column labelled \<open>target\<close> and does not depend on what the \<open>target\<close> cells hold: filling
  them with any sentinel value, such as NaN, gives the same cleaned frame.
\<close>

theorem target_column_never_reaches_environment:
  assumes "train_model c data (w, []) = (res, (w', tr))"
    and "lookup w data = Some df" and "''target'' \<in> set (columns df)"
  shows "\<exists>out rest. tr = (EnvInit (length (frames w)) (cleaned df), out) # rest \<and>
           (\<forall>en \<in> set rest. \<forall>r d. fst en \<noteq> EnvInit r d) \<and>
           length (frames w) \<noteq> data \<and>
           cleaned df = filter (\<lambda>col. fst col \<noteq> ''target'') df \<and>
           ''target'' \<notin> set (columns (cleaned df)) \<and>
           (\<forall>v. cleaned (with_target v df) = cleaned df)"
proof -
  from assms(1) have
    run: "train_model_with NUM_EPISODES MAX_STEPS BATCH_SIZE c data (w, []) = (res, (w', tr))"
    by (simp add: train_model_def)
  from assms(2) have fresh: "length (frames w) \<noteq> data"
    by (auto simp: lookup_def split: if_splits)
  from run_shapes [OF run] assms(2,3)
  have "\<exists>out rest. tr = (EnvInit (length (frames w)) (cleaned df), out) # rest \<and>
           (\<forall>en \<in> set rest. \<forall>r d. fst en \<noteq> EnvInit r d)"
    by (elim disjE exE conjE) (auto simp: later_not_setup)
  with fresh show ?thesis
    by (auto simp: cleaned_no_target cleaned_with_target) (simp add: cleaned_def)
qed

theorem target_column_never_reaches_environment_witness:
  "\<exists>out rest.
     snd (snd (train_model (stub_collab True) 0 (stub_world market 0, [])))
       = (EnvInit (length (frames (stub_world market 0))) (cleaned market), out) # rest \<and>
     ''target'' \<notin> set (columns (cleaned market)) \<and>
     cleaned (with_target NaN market) = cleaned market \<and>
     cleaned market = prices_only"
proof -
  let ?a = "train_model (stub_collab True) 0 (stub_world market 0, [])"
  have a: "?a = (fst ?a, (fst (snd ?a), snd (snd ?a)))" by simp
  from target_column_never_reaches_environment [OF a stub_lookup_market market_has_target]
    cleaned_market
  show ?thesis by blast
qed

text \<open>
  C5. Whenever the agent's constructor is called, it is the third call of the run, after
  the environment's constructor and one \<^verbatim>\<open>_get_state\<close> (the only one of the run), both
  of which returned; its arguments are the length of the state sample that \<^verbatim>\<open>_get_state\<close>
  returned in the world the environment's constructor left, and 3.
\<close>

theorem agent_built_from_state_sample:
  assumes "train_model c data (w, []) = (res, (w', tr))"
    and "i < length tr" and "fst (tr ! i) = AgentInit n m"
  shows "i = 2 \<and> m = 3 \<and> (\<exists>r df. tr ! 0 = (EnvInit r df, None)) \<and> tr ! 1 = (GetState, None) \<and>
     (\<forall>j. j < length tr \<and> fst (tr ! j) = GetState \<longrightarrow> j = 1) \<and>
     (\<exists>w1 w2 w3 sample. TradingEnvironment c (length (frames w)) w1 = (Inr (), w2) \<and>
        get_state c w2 = (Inr sample, w3) \<and> n = length sample)"
proof -
  from assms(1) have
    run: "train_model_with NUM_EPISODES MAX_STEPS BATCH_SIZE c data (w, []) = (res, (w', tr))"
    by (simp add: train_model_def)
  from run_shapes [OF run] assms(2,3) show ?thesis
  proof (elim disjE exE conjE)
    fix df w2 sample w3 out rest
    assume e: "TradingEnvironment c (length (frames w)) (w\<lparr>frames := frames w @ [cleaned df]\<rparr>) = (Inr (), w2)"
      and g: "get_state c w2 = (Inr sample, w3)"
      and tr: "tr = (EnvInit (length (frames w)) (cleaned df), None) # (GetState, None)
                    # (AgentInit (length sample) 3, out) # rest"
      and rest: "\<forall>en \<in> set rest. later_event (fst en)"
    have i: "i = 2"
    proof (rule ccontr)
      assume "i \<noteq> 2"
      with assms(2,3) tr consider "i = 0" | "i = 1" | k where "i = 3 + k" "k < length rest"
        by (cases i) (auto simp: less_Suc_eq_0_disj numeral_3_eq_3 numeral_2_eq_2)
      then show False
      proof cases
        case 1 with assms(3) tr show False by simp
      next
        case 2 with assms(3) tr show False by simp
      next
        case 3
        with assms(3) tr have "fst (rest ! k) = AgentInit n m" by (simp add: numeral_3_eq_3)
        with later_event_simps [of "fst (rest ! k)"] rest 3 show False by (metis nth_mem)
      qed
    qed
    with assms(3) tr have nm: "n = length sample" "m = 3" by simp_all
    have gs: "j = 1" if j: "j < length tr" "fst (tr ! j) = GetState" for j
    proof (rule ccontr)
      assume "j \<noteq> 1"
      with j tr consider "j = 0" | "j = 2" | k where "j = 3 + k" "k < length rest"
        by (cases j) (auto simp: less_Suc_eq_0_disj numeral_3_eq_3 numeral_2_eq_2)
      then show False
      proof cases
        case 1 with j tr show False by simp
      next
        case 2 with j tr show False by simp
      next
        case 3
        with j tr have "fst (rest ! k) = GetState" by (simp add: numeral_3_eq_3)
        with later_event_simps [of "fst (rest ! k)"] rest 3 show False by (metis nth_mem)
      qed
    qed
    from i nm tr e g gs show ?thesis by auto
  qed (auto simp: less_Suc_eq_0_disj)
qed

theorem agent_built_from_state_sample_witness:
  "(\<exists>r df. snd (snd (train_model (stub_collab True) 0 (stub_world market 0, []))) ! 0
            = (EnvInit r df, None)) \<and>
   snd (snd (train_model (stub_collab True) 0 (stub_world market 0, []))) ! 1 = (GetState, None) \<and>
   (\<exists>w1 w2 w3 sample.
      TradingEnvironment (stub_collab True) (length (frames (stub_world market 0))) w1 = (Inr (), w2) \<and>
      get_state (stub_collab True) w2 = (Inr sample, w3) \<and> (2::nat) = length sample)"
proof -
  let ?a = "train_model (stub_collab True) 0 (stub_world market 0, [])"
  have a: "?a = (fst ?a, (fst (snd ?a), snd (snd ?a)))" by simp
  from agent_built_from_state_sample [OF a stub_agent_entry] show ?thesis by blast
qed

text \<open>
  C6. An exception raised by a collaborator (the constructors, \<^verbatim>\<open>_get_state\<close>, \<^verbatim>\<open>reset\<close>,
  \<^verbatim>\<open>act\<close>, \<^verbatim>\<open>step\<close>, \<^verbatim>\<open>remember\<close>, \<^verbatim>\<open>replay\<close>, \<^verbatim>\<open>save_model\<close>) is what \<open>train_model\<close>
  raises, unchanged: in the log of any run, a call that raised is the last call made (no
  retry, no recovery) and the run's result is that very exception; and when the run ends
  with a collaborator's exception, it is the one of the last call logged.
\<close>

theorem exceptions_propagate_unmodified:
  assumes "train_model c data (w, []) = (res, (w', tr))"
  shows "(\<forall>i x. i < length tr \<and> snd (tr ! i) = Some x \<longrightarrow> Suc i = length tr \<and> res = Inl (Raised x))
       \<and> (\<forall>x. res = Inl (Raised x) \<longrightarrow> tr \<noteq> [] \<and> snd (last tr) = Some x)"
proof -
  from assms have "train_model_with NUM_EPISODES MAX_STEPS BATCH_SIZE c data (w, []) = (res, (w', tr))"
    by (simp add: train_model_def)
  from emitsD [OF emits_propagated_train this] have p: "propagated (failure res) tr"
    by simp
  have 2: "\<forall>x. res = Inl (Raised x) \<longrightarrow> tr \<noteq> [] \<and> snd (last tr) = Some x"
    using p by (auto simp: failure_def)
  have 1: "Suc i = length tr \<and> res = Inl (Raised x)" if i: "i < length tr" and x: "snd (tr ! i) = Some x" for i x
  proof -
    from i have mem: "tr ! i \<in> set tr" by simp
    have "\<exists>y. failure res = Some (Raised y)"
    proof (rule ccontr)
      assume "\<not> (\<exists>y. failure res = Some (Raised y))"
      then have "propagated (failure res) tr = (\<forall>en \<in> set tr. snd en = None)"
        by (intro propagated_other) simp
      with p mem x show False by auto
    qed
    then obtain y where y: "failure res = Some (Raised y)" by blast
    with p have l: "snd (last tr) = Some y" and b: "\<forall>en \<in> set (butlast tr). snd en = None" and ne: "tr \<noteq> []"
      by simp_all
    have "\<not> i < length (butlast tr)"
    proof
      assume lt: "i < length (butlast tr)"
      then have "butlast tr ! i \<in> set (butlast tr)" by simp
      with b have "snd (butlast tr ! i) = None" by blast
      with lt x show False by (simp add: nth_butlast)
    qed
    with i have s: "Suc i = length tr" by simp
    with ne have "tr ! i = last tr" by (metis diff_Suc_1 last_conv_nth)
    with l x have "x = y" by simp
    with y have "res = Inl (Raised x)" by (cases res) (simp_all add: failure_def)
    with s show ?thesis by simp
  qed
  from 1 2 show ?thesis by blast
qed

theorem exceptions_propagate_unmodified_witness:
  "Suc 5 = length (snd (snd (train_model broken_env 0 (stub_world market 0, []))))
   \<and> fst (train_model broken_env 0 (stub_world market 0, [])) = Inl (Raised ''market closed'')
   \<and> snd (last (snd (snd (train_model broken_env 0 (stub_world market 0, []))))) = Some ''market closed''"
proof -
  let ?a = "train_model broken_env 0 (stub_world market 0, [])"
  have a: "?a = (fst ?a, (fst (snd ?a), snd (snd ?a)))" by simp
  have i: "5 < length (snd (snd ?a)) \<and> snd (snd (snd ?a) ! 5) = Some ''market closed''"
    by (simp add: broken_trace)
  from exceptions_propagate_unmodified [OF a] i broken_run show ?thesis by blast
qed

text \<open>
  C7. \<open>load_existing_model\<close> on a path where there is no file fails with the
  file-not-found error; on a path whose artifact does not deserialize it fails with the
  deserialization error; and it returns a model only when the file exists and
  deserializes to that model, so a failure never comes with a model.
\<close>

theorem load_existing_model_failures:
  "(files path = None \<longrightarrow> load_existing_model deserialize files path = Inl FileNotFound) \<and>
   (files path = Some artifact \<and> deserialize artifact = None \<longrightarrow>
      load_existing_model deserialize files path = Inl DeserializationError) \<and>
   (\<forall>m. load_existing_model deserialize files path = Inr m \<longrightarrow>
      (\<exists>stored. files path = Some stored \<and> deserialize stored = Some m))"
  by (auto simp: load_existing_model_def split: option.splits)

theorem load_existing_model_failures_witness:
  "load_existing_model stub_deserialize stub_files ''missing.h5'' = Inl FileNotFound \<and>
   load_existing_model stub_deserialize stub_files ''corrupt.h5'' = Inl DeserializationError"
proof -
  have 1: "stub_files ''missing.h5'' = None"
    by (simp add: stub_files_def)
  have 2: "stub_files ''corrupt.h5'' = Some [0, 0] \<and> stub_deserialize [0, 0] = None"
    by (simp add: stub_files_def stub_deserialize_def)
  from load_existing_model_failures
    [where files = stub_files and path = "''missing.h5''" and deserialize = stub_deserialize] 1
  have a: "load_existing_model stub_deserialize stub_files ''missing.h5'' = Inl FileNotFound"
    by blast
  from load_existing_model_failures
    [where files = stub_files and path = "''corrupt.h5''" and deserialize = stub_deserialize
       and artifact = "[0, 0]"] 2
  have b: "load_existing_model stub_deserialize stub_files ''corrupt.h5'' = Inl DeserializationError"
    by blast
  from a b show ?thesis by (rule conjI)
qed

text \<open>
  C8. An iteration whose \<^verbatim>\<open>env.step\<close> reports termination still does all its bookkeeping
  before the loop is left: the terminal transition is handed to \<^verbatim>\<open>remember\<close>, the memory
  length is read and compared with the batch size (and \<^verbatim>\<open>replay(64)\<close> is called when it
  exceeds it), and the state the loop is left with is \<open>next_state\<close>. Only then does the
  loop stop, whatever the number of iterations left.
\<close>

theorem terminal_step_bookkeeping:
  assumes "act c state w = (Inr action, w1)"
    and "step c action w1 = (Inr (next_state, reward, True), w2)"
    and "remember c state action reward next_state True w2 = (Inr (), w3)"
  shows "step_loop c BATCH_SIZE (Suc n) state (w, tr) =
     (let recorded = tr @ [(Act state, None), (Step action, None),
                           (Remember state action reward next_state True, None),
                           (MemoryLen (memory_len c w3), None)]
      in if memory_len c w3 > 64 then
           (case replay c 64 w3 of
              (Inr u, w4) \<Rightarrow> (Inr next_state, (w4, recorded @ [(Replay 64, None)]))
            | (Inl x, w4) \<Rightarrow> (Inl (Raised x), (w4, recorded @ [(Replay 64, Some x)])))
         else (Inr next_state, (w3, recorded)))"
  using assms
  by (simp add: loop_body_def BATCH_SIZE_def then_do_def invoke_def observe_def ret_def
      split: prod.splits sum.splits)

theorem terminal_step_bookkeeping_witness:
  "step_loop (stub_collab True) BATCH_SIZE (Suc 9) [0, 0] (stub_world market 64, [])
   = (Inr [1, 1], (stub_world market 65,
       [(Act [0, 0], None), (Step 2, None), (Remember [0, 0] 2 5 [1, 1] True, None),
        (MemoryLen 65, None), (Replay 64, None)]))"
proof -
  have a: "act (stub_collab True) [0, 0] (stub_world market 64) = (Inr 2, stub_world market 64)"
    by (simp add: stub_collab_def)
  have b: "step (stub_collab True) 2 (stub_world market 64)
           = (Inr ([1, 1], 5, True), stub_world market 64)"
    by (simp add: stub_collab_def)
  have c: "remember (stub_collab True) [0, 0] 2 5 [1, 1] True (stub_world market 64)
           = (Inr (), stub_world market 65)"
    by (simp add: stub_collab_def stub_world_def)
  show ?thesis
    using terminal_step_bookkeeping [OF a b c, of 9 "[]"]
    by (simp add: stub_collab_def stub_world_def)
qed

text \<open>
  C9. \<open>train_model\<close> does not change the frame the caller passed: \<^verbatim>\<open>drop\<close> allocates the
  cleaned frame at a new address, the local name is rebound to it, and that new address is
  the only one handed to a collaborator. So, provided no collaborator writes to a frame it
  was never given (\<open>leaves_alone\<close>), the object at the caller's address is the same after
  the call as before it, whether the call returns or raises.
\<close>

theorem caller_frame_untouched:
  assumes run: "train_model c data (w, tr0) = (res, (w', tr))" and alone: "leaves_alone c data"
  shows "lookup w' data = lookup w data"
proof (cases "lookup w data")
  case None
  with run show ?thesis
    by (simp add: train_model_def train_model_with_setup then_do_def pandas_def DataFrame_drop_def)
next
  case (Some df)
  show ?thesis
  proof (cases "''target'' \<in> set (columns df)")
    case False
    with run Some show ?thesis
      by (auto simp: train_model_def train_model_with_setup then_do_def pandas_def DataFrame_drop_def)
  next
    case True
    let ?r = "length (frames w)"
    let ?w1 = "w\<lparr>frames := frames w @ [cleaned df]\<rparr>"
    from Some have fresh: "?r \<noteq> data" and same: "lookup ?w1 data = Some df"
      by (auto simp: lookup_def nth_append split: if_splits)
    from Some True have "pandas (DataFrame_drop [''target''] data) (w, tr0) = (Inr ?r, (?w1, tr0))"
      by (simp add: drop_Inr)
    with run have
      "then_do (\<lambda>s. invoke (EnvInit ?r (frames (fst s) ! ?r)) (TradingEnvironment c ?r) s) (\<lambda>_.
       then_do (invoke GetState (get_state c)) (\<lambda>sample.
       then_do (invoke (AgentInit (length sample) 3) (DQN c (length sample) 3)) (\<lambda>_.
       after_setup c NUM_EPISODES MAX_STEPS BATCH_SIZE))) (?w1, tr0) = (res, (w', tr))"
      by (simp add: train_model_def train_model_with_setup then_do_ok)
    from keepsD [OF keeps_from_constructor [OF alone fresh] this] same
    have "lookup w' data = Some df"
      by simp
    with Some show ?thesis by simp
  qed
qed

theorem caller_frame_untouched_witness:
  "lookup (fst (snd (train_model (stub_collab True) 0 (stub_world market 0, [])))) 0 = Some market"
proof -
  let ?a = "train_model (stub_collab True) 0 (stub_world market 0, [])"
  have a: "?a = (fst ?a, (fst (snd ?a), snd (snd ?a)))" by simp
  from caller_frame_untouched [OF a stub_leaves_alone] show ?thesis
    by (simp add: stub_lookup_market)
qed

text \<open>
  C10. When the frame the caller passes has no column labelled \<open>target\<close>, \<open>train_model\<close>
  raises the \<open>KeyError\<close> of the column drop and nothing else has happened: the world is
  the one it was called in and no call to a collaborator has been logged, so no
  environment, no agent, no episode and no path.
\<close>

theorem missing_target_raises_first:
  assumes "lookup w data = Some df" and "''target'' \<notin> set (columns df)"
  shows "train_model c data (w, tr) = (Inl (KeyError [''target'']), (w, tr))"
  unfolding train_model_def train_model_with_def
  by (rule then_do_err) (simp add: pandas_def drop_missing [OF assms])

theorem missing_target_raises_first_witness:
  "lookup (stub_world prices_only 0) 0 = Some prices_only
   \<and> ''target'' \<notin> set (columns prices_only)
   \<and> train_model (stub_collab True) 0 (stub_world prices_only 0, [])
       = (Inl (KeyError [''target'']), (stub_world prices_only 0, []))"
proof -
  have h1: "lookup (stub_world prices_only 0) 0 = Some prices_only"
    by (simp add: lookup_def stub_world_def)
  have h2: "''target'' \<notin> set (columns prices_only)"
    by (simp add: columns_def prices_only_def)
  show ?thesis
    using h1 h2 missing_target_raises_first [OF h1 h2, of "stub_collab True" "[]"] by simp
qed


end
